theory Spec2Isabelle
  imports Main "HOL-Library.Sublist"
begin

section \<open>The \<^verbatim>\<open>list\<close> command of opentools-cli (src/commands/list.ts)\<close>

text \<open>
  The command reads the configuration files of two clients (Claude Desktop and Continue),
  extracts the installed MCP servers from them, compares them with the registry
  \<^verbatim>\<open>servers\<close> and prints one section per client.

  The embedding follows the TypeScript source function by function. What the source takes
  from the JavaScript runtime (\<^verbatim>\<open>JSON.parse\<close>, property access, \<^verbatim>\<open>||\<close>, \<^verbatim>\<open>?.\<close>,
  \<^verbatim>\<open>Object.keys\<close>, \<^verbatim>\<open>slice\<close>, \<^verbatim>\<open>JSON.stringify\<close>) is modelled on the values
  \<^verbatim>\<open>JSON.parse\<close> can return, with every exception of the runtime as an error value.
\<close>

subsection \<open>Values and errors of the runtime\<close>

text \<open>
  A value returned by \<^verbatim>\<open>JSON.parse\<close>. The members of an object are kept in the order of
  the file, duplicates included. A number is represented by the text that
  \<^verbatim>\<open>JSON.stringify\<close> prints for it (\<^verbatim>\<open>0\<close> for both zeros); floating point arithmetic
  is not needed by the command. A string is a list of code units.
  \<^verbatim>\<open>undefined\<close> is \<open>None\<close> of \<open>json option\<close>.
\<close>

datatype json =
    JNull
  | JBool bool
  | JNum string
  | JStr string
  | JArr "json list"
  | JObj "(string \<times> json) list"

text \<open>
  The exceptions the command can meet: a rejected \<^verbatim>\<open>fs.readFile\<close> (a system error with
  its \<^verbatim>\<open>code\<close>), the \<^verbatim>\<open>SyntaxError\<close> of \<^verbatim>\<open>JSON.parse\<close>, and the \<^verbatim>\<open>TypeError\<close> of
  reading a property of \<^verbatim>\<open>null\<close>/\<^verbatim>\<open>undefined\<close> or calling what is not a function.
\<close>

datatype js_error = SystemError string | SyntaxError | TypeError

subsection \<open>Decimal strings and property order\<close>

definition digit :: "nat \<Rightarrow> char" where
  "digit n = ''0123456789'' ! n"

fun ToString :: "nat \<Rightarrow> string" where
  "ToString n = (if n < 10 then [digit n] else ToString (n div 10) @ [digit (n mod 10)])"

declare ToString.simps [simp del]

definition is_digit :: "char \<Rightarrow> bool" where
  "is_digit c = (c \<in> set ''0123456789'')"

definition digit_value :: "char \<Rightarrow> nat" where
  "digit_value c = of_char c - 48"

definition ToNumber :: "string \<Rightarrow> nat" where
  "ToNumber s = foldl (\<lambda>n c. 10 * n + digit_value c) 0 s"

text \<open>
  An array index is a canonical numeric string below \<open>2^32 - 1\<close>. The runtime lists such
  property keys first, in ascending numeric order, and the other keys after them in the
  order of their creation.
\<close>

definition is_array_index :: "string \<Rightarrow> bool" where
  "is_array_index s =
     (s \<noteq> [] \<and> list_all is_digit s \<and> (s = ''0'' \<or> hd s \<noteq> CHR ''0'')
      \<and> ToNumber s < 4294967295)"

definition first_occurrences :: "'a list \<Rightarrow> 'a list" where
  "first_occurrences xs = rev (remdups (rev xs))"

definition own_keys :: "string list \<Rightarrow> string list" where
  "own_keys ks =
     sort_key ToNumber (first_occurrences (filter is_array_index ks))
     @ first_occurrences (filter (\<lambda>k. \<not> is_array_index k) ks)"

subsection \<open>Operators of the language on parsed values\<close>

text \<open>
  \<^verbatim>\<open>v.name\<close> for a property name that no prototype defines (the command reads only
  \<^verbatim>\<open>mcpServers\<close>, \<^verbatim>\<open>experimental\<close>, \<^verbatim>\<open>modelContextProtocolServers\<close>, \<^verbatim>\<open>transport\<close>,
  \<^verbatim>\<open>command\<close> and \<^verbatim>\<open>args\<close> this way). On \<^verbatim>\<open>null\<close> and \<^verbatim>\<open>undefined\<close> it throws; on an
  object the last member of that name in the file is the value; on every other value
  it is \<^verbatim>\<open>undefined\<close>.
\<close>

fun js_get :: "json option \<Rightarrow> string \<Rightarrow> js_error + json option" where
  "js_get None k = Inl TypeError"
| "js_get (Some JNull) k = Inl TypeError"
| "js_get (Some (JObj kvs)) k = Inr (map_of (rev kvs) k)"
| "js_get (Some v) k = Inr None"

text \<open>\<^verbatim>\<open>v?.name\<close>: \<^verbatim>\<open>undefined\<close> when \<^verbatim>\<open>v\<close> is \<^verbatim>\<open>null\<close> or \<^verbatim>\<open>undefined\<close>.\<close>

fun js_get_optional :: "json option \<Rightarrow> string \<Rightarrow> js_error + json option" where
  "js_get_optional None k = Inr None"
| "js_get_optional (Some JNull) k = Inr None"
| "js_get_optional v k = js_get v k"

fun truthy :: "json option \<Rightarrow> bool" where
  "truthy None = False"
| "truthy (Some JNull) = False"
| "truthy (Some (JBool b)) = b"
| "truthy (Some (JNum t)) = (t \<noteq> ''0'')"
| "truthy (Some (JStr s)) = (s \<noteq> [])"
| "truthy (Some (JArr xs)) = True"
| "truthy (Some (JObj kvs)) = True"

text \<open>\<^verbatim>\<open>v || d\<close> with a default \<open>d\<close> that is a value.\<close>

definition or_else :: "json option \<Rightarrow> json \<Rightarrow> json" where
  "or_else v d = (if truthy v then the v else d)"

text \<open>
  \<^verbatim>\<open>Object.keys(v)\<close>: the indices of a string or an array, the own keys of an object,
  nothing for a boolean or a number.
\<close>

fun Object_keys :: "json \<Rightarrow> js_error + string list" where
  "Object_keys JNull = Inl TypeError"
| "Object_keys (JBool b) = Inr []"
| "Object_keys (JNum t) = Inr []"
| "Object_keys (JStr s) = Inr (map ToString [0..<length s])"
| "Object_keys (JArr xs) = Inr (map ToString [0..<length xs])"
| "Object_keys (JObj kvs) = Inr (own_keys (map fst kvs))"

subsection \<open>The registry and the environment of the command\<close>

text \<open>
  The registry module (\<^verbatim>\<open>../data/servers/index.js\<close>) is imported by the command; the
  command reads \<^verbatim>\<open>id\<close>, \<^verbatim>\<open>config.command\<close> and \<^verbatim>\<open>config.args\<close> of its entries. The
  list of entries is a parameter of the model.
\<close>

record server_config =
  command :: string
  args :: "string list"

record registry_server =
  id' :: string
  config :: server_config

type_synonym path = "string list"

text \<open>
  What the command takes from its environment: the registry, \<^verbatim>\<open>os.homedir()\<close>,
  \<^verbatim>\<open>fs.readFile(path, 'utf8')\<close> (\<open>Inl code\<close> when the read is rejected with that error code)
  and \<^verbatim>\<open>JSON.parse\<close> (\<open>None\<close> when it throws its \<^verbatim>\<open>SyntaxError\<close>).
\<close>

record env =
  servers :: "registry_server list"
  homedir :: string
  readFile :: "path \<Rightarrow> string + string"
  JSON_parse :: "string \<Rightarrow> json option"

datatype client = Claude | Continue

fun clientDisplayNames :: "client \<Rightarrow> string" where
  "clientDisplayNames Claude = ''Claude Desktop''"
| "clientDisplayNames Continue = ''Continue''"

subsection \<open>Lines written by \<^verbatim>\<open>this.log\<close>\<close>

text \<open>
  The tree connector of a line: \<open>Last\<close> closes the tree, \<open>Mid\<close> continues it.
\<close>

datatype connector = Last | Mid

text \<open>
  One constructor for each template the command logs: the header of a client's section,
  the hyperlinked line of a registry server, the red line of an unknown server, the two
  messages of an empty listing and the final empty line.
\<close>

datatype log_line =
    Header string
  | ServerLine connector string
  | UnknownLine connector string
  | NoServersOn string
  | NoServers
  | EmptyLine

type_synonym log = "log_line list"

subsection \<open>Reading a configuration file\<close>

text \<open>The two statements that open each \<^verbatim>\<open>try\<close> block.\<close>

definition read_config :: "env \<Rightarrow> path \<Rightarrow> js_error + json" where
  "read_config e configPath =
     (case readFile e configPath of
        Inl code \<Rightarrow> Inl (SystemError code)
      | Inr configContent \<Rightarrow>
          (case JSON_parse e configContent of
             None \<Rightarrow> Inl SyntaxError
           | Some parsed \<Rightarrow> Inr parsed))"

text \<open>
  The \<^verbatim>\<open>catch\<close> clause of both inspectors: an error whose \<^verbatim>\<open>code\<close> is \<^verbatim>\<open>ENOENT\<close> makes the
  inspector return \<^verbatim>\<open>false\<close>, every other error is thrown again.
\<close>

definition catch_clause :: "js_error \<Rightarrow> js_error + bool" where
  "catch_clause error = (if error = SystemError ''ENOENT'' then Inr False else Inl error)"

subsection \<open>\<^verbatim>\<open>listClaudeServers\<close>\<close>

definition claude_configPath :: "env \<Rightarrow> path" where
  "claude_configPath e =
     [homedir e, ''Library'', ''Application Support'', ''Claude'', ''claude_desktop_config.json'']"

text \<open>\<^verbatim>\<open>Object.keys(config.mcpServers || {})\<close>\<close>

definition claude_installedServers :: "json \<Rightarrow> js_error + string list" where
  "claude_installedServers parsed =
     (case js_get (Some parsed) ''mcpServers'' of
        Inl err \<Rightarrow> Inl err
      | Inr v \<Rightarrow> Object_keys (or_else v (JObj [])))"

text \<open>\<^verbatim>\<open>servers.some(s => s.id === id)\<close>\<close>

definition is_registered :: "registry_server list \<Rightarrow> string \<Rightarrow> bool" where
  "is_registered srvs i = list_ex (\<lambda>s. id' s = i) srvs"

definition registeredServers :: "registry_server list \<Rightarrow> string list \<Rightarrow> string list" where
  "registeredServers srvs installedServers = filter (\<lambda>i. is_registered srvs i) installedServers"

definition unknownServers :: "registry_server list \<Rightarrow> string list \<Rightarrow> string list" where
  "unknownServers srvs installedServers = filter (\<lambda>i. \<not> is_registered srvs i) installedServers"

text \<open>The two printing loops, with the connector each iteration chooses.\<close>

definition registered_lines :: "string list \<Rightarrow> string list \<Rightarrow> log" where
  "registered_lines registered unknown =
     map (\<lambda>(index, serverId).
            ServerLine (if Suc index = length registered \<and> length unknown = 0 then Last else Mid)
              serverId)
       (enumerate 0 registered)"

definition unknown_lines :: "string list \<Rightarrow> log" where
  "unknown_lines unknown =
     map (\<lambda>(index, serverId).
            UnknownLine (if Suc index = length unknown then Last else Mid) serverId)
       (enumerate 0 unknown)"

text \<open>
  The body of the \<^verbatim>\<open>try\<close> block after the file is parsed: the value returned and the
  lines logged.
\<close>

definition claude_report :: "registry_server list \<Rightarrow> string list \<Rightarrow> bool \<times> log" where
  "claude_report srvs installedServers =
     (if length installedServers > 0 then
        (let registered = registeredServers srvs installedServers;
             unknown = unknownServers srvs installedServers
         in (True,
             [Header (clientDisplayNames Claude)]
             @ registered_lines registered unknown
             @ unknown_lines unknown))
      else (False, []))"

text \<open>
  The inspector takes the log written so far and returns its result (the boolean, or the
  error it throws) with the log extended.
\<close>

definition listClaudeServers :: "env \<Rightarrow> log \<Rightarrow> (js_error + bool) \<times> log" where
  "listClaudeServers e out =
     (case read_config e (claude_configPath e) of
        Inl err \<Rightarrow> (catch_clause err, out)
      | Inr parsed \<Rightarrow>
          (case claude_installedServers parsed of
             Inl err \<Rightarrow> (catch_clause err, out)
           | Inr installedServers \<Rightarrow>
               (let (found, lines) = claude_report (servers e) installedServers
                in (Inr found, out @ lines))))"

subsection \<open>\<^verbatim>\<open>JSON.stringify\<close>\<close>

text \<open>
  The escape of one code unit inside a quoted string: the short escapes, a \<^verbatim>\<open>\u00xx\<close>
  escape for the other control characters, the code unit itself otherwise. Code units
  are the 256 values of \<open>char\<close>, so the surrogates that \<^verbatim>\<open>JSON.stringify\<close> also escapes
  do not occur.
\<close>

definition hex_digit :: "nat \<Rightarrow> char" where
  "hex_digit n = ''0123456789abcdef'' ! n"

definition escape_unit :: "char \<Rightarrow> string" where
  "escape_unit c =
     (if c = CHR 0x08 then [CHR 0x5C, CHR ''b'']
      else if c = CHR 0x09 then [CHR 0x5C, CHR ''t'']
      else if c = CHR 0x0A then [CHR 0x5C, CHR ''n'']
      else if c = CHR 0x0C then [CHR 0x5C, CHR ''f'']
      else if c = CHR 0x0D then [CHR 0x5C, CHR ''r'']
      else if c = CHR 0x22 then [CHR 0x5C, CHR 0x22]
      else if c = CHR 0x5C then [CHR 0x5C, CHR 0x5C]
      else if of_char c < (32 :: nat) then
        [CHR 0x5C, CHR ''u'', CHR ''0'', CHR ''0'',
         hex_digit (of_char c div 16), hex_digit (of_char c mod 16)]
      else [c])"

definition QuoteJSONString :: "string \<Rightarrow> string" where
  "QuoteJSONString s = CHR 0x22 # concat (map escape_unit s) @ [CHR 0x22]"

fun join_commas :: "string list \<Rightarrow> string" where
  "join_commas [] = []"
| "join_commas [x] = x"
| "join_commas (x # y # ys) = x @ CHR '','' # join_commas (y # ys)"

text \<open>
  The members of an object are printed in the order of its own keys, each with the value
  the object holds for it (the last one in the file).
\<close>

fun JSON_stringify :: "json \<Rightarrow> string" where
  "JSON_stringify JNull = ''null''"
| "JSON_stringify (JBool b) = (if b then ''true'' else ''false'')"
| "JSON_stringify (JNum t) = t"
| "JSON_stringify (JStr s) = QuoteJSONString s"
| "JSON_stringify (JArr xs) = CHR ''['' # join_commas (map JSON_stringify xs) @ '']''"
| "JSON_stringify (JObj kvs) =
     CHR ''{'' #
     join_commas
       (map (\<lambda>k. QuoteJSONString k @ CHR '':'' #
                  the (map_of (rev (map (\<lambda>kv. (fst kv, JSON_stringify (snd kv))) kvs)) k))
          (own_keys (map fst kvs)))
     @ ''}''"

subsection \<open>\<^verbatim>\<open>listContinueServers\<close>\<close>

definition continue_configPath :: "env \<Rightarrow> path" where
  "continue_configPath e = [homedir e, ''.continue'', ''config.json'']"

text \<open>\<^verbatim>\<open>config.experimental?.modelContextProtocolServers || []\<close>\<close>

definition continue_installedServers :: "json \<Rightarrow> js_error + json" where
  "continue_installedServers parsed =
     (case js_get (Some parsed) ''experimental'' of
        Inl err \<Rightarrow> Inl err
      | Inr experimental \<Rightarrow>
          (case js_get_optional experimental ''modelContextProtocolServers'' of
             Inl err \<Rightarrow> Inl err
           | Inr v \<Rightarrow> Inr (or_else v (JArr []))))"

text \<open>
  \<^verbatim>\<open>v.slice(0, n)\<close>: the method of strings and of arrays; a value without a callable
  \<^verbatim>\<open>slice\<close> throws.
\<close>

fun js_slice :: "json option \<Rightarrow> nat \<Rightarrow> js_error + json" where
  "js_slice (Some (JStr s)) n = Inr (JStr (take n s))"
| "js_slice (Some (JArr xs)) n = Inr (JArr (take n xs))"
| "js_slice v n = Inl TypeError"

text \<open>
  The callback given to \<^verbatim>\<open>installedServers.some\<close>: the command of the installed entry is
  compared first, and only when it is the registry's command are the arguments read,
  sliced and compared as texts.
\<close>

definition installed_matches :: "registry_server \<Rightarrow> json \<Rightarrow> js_error + bool" where
  "installed_matches registryServer installed =
     (case js_get (Some installed) ''transport'' of
        Inl err \<Rightarrow> Inl err
      | Inr transport \<Rightarrow>
          (case js_get transport ''command'' of
             Inl err \<Rightarrow> Inl err
           | Inr c \<Rightarrow>
               if c \<noteq> Some (JStr (command (config registryServer))) then Inr False
               else
                 (case js_get transport ''args'' of
                    Inl err \<Rightarrow> Inl err
                  | Inr a \<Rightarrow>
                      (case js_slice a (length (args (config registryServer))) of
                         Inl err \<Rightarrow> Inl err
                       | Inr sliced \<Rightarrow>
                           Inr (JSON_stringify sliced
                                = JSON_stringify (JArr (map JStr (args (config registryServer)))))))))"

text \<open>\<^verbatim>\<open>Array.prototype.some\<close>: the elements in order, up to the first one that matches.\<close>

fun some_installed :: "registry_server \<Rightarrow> json list \<Rightarrow> js_error + bool" where
  "some_installed registryServer [] = Inr False"
| "some_installed registryServer (installed # rest) =
     (case installed_matches registryServer installed of
        Inl err \<Rightarrow> Inl err
      | Inr True \<Rightarrow> Inr True
      | Inr False \<Rightarrow> some_installed registryServer rest)"

text \<open>
  \<^verbatim>\<open>installedServers.some(...)\<close> on the value read from the file: only an array has the
  method.
\<close>

fun installedServers_some :: "json \<Rightarrow> registry_server \<Rightarrow> js_error + bool" where
  "installedServers_some (JArr xs) registryServer = some_installed registryServer xs"
| "installedServers_some v registryServer = Inl TypeError"

text \<open>\<^verbatim>\<open>servers.filter(...)\<close>: the registry in order; the first exception ends the filter.\<close>

fun filter_servers :: "json \<Rightarrow> registry_server list \<Rightarrow> js_error + registry_server list" where
  "filter_servers installedServers [] = Inr []"
| "filter_servers installedServers (registryServer # rest) =
     (case installedServers_some installedServers registryServer of
        Inl err \<Rightarrow> Inl err
      | Inr keep \<Rightarrow>
          (case filter_servers installedServers rest of
             Inl err \<Rightarrow> Inl err
           | Inr kept \<Rightarrow> Inr (if keep then registryServer # kept else kept)))"

definition validServers :: "registry_server list \<Rightarrow> json \<Rightarrow> js_error + string list" where
  "validServers srvs installedServers =
     (case filter_servers installedServers srvs of
        Inl err \<Rightarrow> Inl err
      | Inr kept \<Rightarrow> Inr (map id' kept))"

definition valid_lines :: "string list \<Rightarrow> log" where
  "valid_lines valid =
     map (\<lambda>(index, serverId). ServerLine (if Suc index = length valid then Last else Mid) serverId)
       (enumerate 0 valid)"

definition continue_report :: "string list \<Rightarrow> bool \<times> log" where
  "continue_report valid =
     (if length valid > 0 then (True, [Header (clientDisplayNames Continue)] @ valid_lines valid)
      else (False, []))"

definition listContinueServers :: "env \<Rightarrow> log \<Rightarrow> (js_error + bool) \<times> log" where
  "listContinueServers e out =
     (case read_config e (continue_configPath e) of
        Inl err \<Rightarrow> (catch_clause err, out)
      | Inr parsed \<Rightarrow>
          (case continue_installedServers parsed of
             Inl err \<Rightarrow> (catch_clause err, out)
           | Inr installedServers \<Rightarrow>
               (case validServers (servers e) installedServers of
                  Inl err \<Rightarrow> (catch_clause err, out)
                | Inr valid \<Rightarrow>
                    (let (found, lines) = continue_report valid
                     in (Inr found, out @ lines)))))"

subsection \<open>\<^verbatim>\<open>run\<close>\<close>

definition trackServers :: "bool \<Rightarrow> bool \<Rightarrow> bool" where
  "trackServers foundServers found = (foundServers \<or> found)"

text \<open>\<^verbatim>\<open>.catch(() => false)\<close>\<close>

fun catch_false :: "js_error + bool \<Rightarrow> bool" where
  "catch_false (Inl err) = False"
| "catch_false (Inr found) = found"

text \<open>
  The first half of \<^verbatim>\<open>run\<close>: the value of \<^verbatim>\<open>foundServers\<close> after the inspectors that the
  \<^verbatim>\<open>--client\<close> flag selects have run, or the error that ends the run.
\<close>

definition track_selected :: "env \<Rightarrow> client option \<Rightarrow> log \<Rightarrow> (js_error + bool) \<times> log" where
  "track_selected e flag out =
     (case flag of
        Some Claude \<Rightarrow>
          (case listClaudeServers e out of
             (Inl err, out') \<Rightarrow> (Inl err, out')
           | (Inr found, out') \<Rightarrow> (Inr (trackServers False found), out'))
      | Some Continue \<Rightarrow>
          (case listContinueServers e out of
             (Inl err, out') \<Rightarrow> (Inl err, out')
           | (Inr found, out') \<Rightarrow> (Inr (trackServers False found), out'))
      | None \<Rightarrow>
          (let (r1, out1) = listClaudeServers e out;
               foundServers = trackServers False (catch_false r1);
               (r2, out2) = listContinueServers e out1
           in (Inr (trackServers foundServers (catch_false r2)), out2)))"

definition run :: "env \<Rightarrow> client option \<Rightarrow> (js_error + unit) \<times> log" where
  "run e flag =
     (case track_selected e flag [] of
        (Inl err, out) \<Rightarrow> (Inl err, out)
      | (Inr foundServers, out) \<Rightarrow>
          (Inr (),
           (if \<not> foundServers then
              out @ [case flag of
                       Some c \<Rightarrow> NoServersOn (clientDisplayNames c)
                     | None \<Rightarrow> NoServers]
            else out)
           @ [EmptyLine]))"

subsection \<open>Vocabulary of the properties\<close>

text \<open>
  The entries a log shows: the identifier of each server line with \<open>True\<close> when the line
  is that of a registry server and \<open>False\<close> when it is that of an unknown server.
\<close>

fun entries :: "log \<Rightarrow> (string \<times> bool) list" where
  "entries [] = []"
| "entries (ServerLine p serverId # rest) = (serverId, True) # entries rest"
| "entries (UnknownLine p serverId # rest) = (serverId, False) # entries rest"
| "entries (l # rest) = entries rest"

text \<open>
  An installed entry of the shape the callback's parameter type declares: an object whose
  \<^verbatim>\<open>transport\<close> holds the string \<open>c\<close> as \<^verbatim>\<open>command\<close> and the strings \<open>as\<close> as \<^verbatim>\<open>args\<close>
  (other members may be present).
\<close>

definition carries :: "json \<Rightarrow> string \<Rightarrow> string list \<Rightarrow> bool" where
  "carries installed c as =
     (case js_get (Some installed) ''transport'' of
        Inr (Some transport) \<Rightarrow>
          js_get (Some transport) ''command'' = Inr (Some (JStr c))
          \<and> js_get (Some transport) ''args'' = Inr (Some (JArr (map JStr as)))
      | _ \<Rightarrow> False)"

text \<open>
  The structural match as the specification words it: equal commands, and the reference's
  arguments truncated to the length of the template equal to the template.
\<close>

definition prefix_match :: "registry_server \<Rightarrow> string \<times> string list \<Rightarrow> bool" where
  "prefix_match r ref =
     (fst ref = command (config r)
      \<and> take (length (args (config r))) (snd ref) = args (config r))"

text \<open>A list of installed entries, each of the declared shape.\<close>

definition well_shaped :: "json list \<Rightarrow> (string \<times> string list) list \<Rightarrow> bool" where
  "well_shaped xs refs = list_all2 (\<lambda>x ref. carries x (fst ref) (snd ref)) xs refs"

definition configPath :: "client \<Rightarrow> env \<Rightarrow> path" where
  "configPath c e = (case c of Claude \<Rightarrow> claude_configPath e | Continue \<Rightarrow> continue_configPath e)"

text \<open>The inspector of a client.\<close>

fun inspect :: "client \<Rightarrow> env \<Rightarrow> log \<Rightarrow> (js_error + bool) \<times> log" where
  "inspect Claude = listClaudeServers"
| "inspect Continue = listContinueServers"

text \<open>The inspectors that \<^verbatim>\<open>run\<close> calls for a value of the \<^verbatim>\<open>--client\<close> flag.\<close>

fun selected :: "client option \<Rightarrow> client list" where
  "selected (Some c) = [c]"
| "selected None = [Claude, Continue]"

subsection \<open>Example environments\<close>

text \<open>
  An environment with home directory \<^verbatim>\<open>/home/u\<close> in which each of the two configuration
  files is unreadable with an error code (\<open>Inl code\<close>), readable with a content that
  \<^verbatim>\<open>JSON.parse\<close> rejects (\<open>Inr None\<close>), or readable with a content that parses to a value.
\<close>

definition example_env ::
  "registry_server list \<Rightarrow> string + json option \<Rightarrow> string + json option \<Rightarrow> env" where
  "example_env srvs claude_file continue_file =
     \<lparr>servers = srvs,
      homedir = ''/home/u'',
      readFile = (\<lambda>p.
        if p = [''/home/u'', ''Library'', ''Application Support'', ''Claude'',
                ''claude_desktop_config.json'']
        then (case claude_file of Inl code \<Rightarrow> Inl code | Inr v \<Rightarrow> Inr ''claude'')
        else if p = [''/home/u'', ''.continue'', ''config.json'']
        then (case continue_file of Inl code \<Rightarrow> Inl code | Inr v \<Rightarrow> Inr ''continue'')
        else Inl ''ENOENT''),
      JSON_parse = (\<lambda>s.
        if s = ''claude'' then (case claude_file of Inl code \<Rightarrow> None | Inr v \<Rightarrow> v)
        else if s = ''continue'' then (case continue_file of Inl code \<Rightarrow> None | Inr v \<Rightarrow> v)
        else None)\<rparr>"

definition server :: "string \<Rightarrow> string \<Rightarrow> string list \<Rightarrow> registry_server" where
  "server i c as = \<lparr>id' = i, config = \<lparr>command = c, args = as\<rparr>\<rparr>"

text \<open>An entry of Continue's list with a \<^verbatim>\<open>stdio\<close> transport.\<close>

definition stdio_entry :: "string \<Rightarrow> string list \<Rightarrow> json" where
  "stdio_entry c as =
     JObj [(''transport'',
            JObj [(''type'', JStr ''stdio''), (''command'', JStr c), (''args'', JArr (map JStr as))])]"

definition continue_config :: "json list \<Rightarrow> json" where
  "continue_config xs = JObj [(''experimental'', JObj [(''modelContextProtocolServers'', JArr xs)])]"

definition claude_config :: "string list \<Rightarrow> json" where
  "claude_config ks = JObj [(''mcpServers'', JObj (map (\<lambda>k. (k, JObj [])) ks))]"

text \<open>
  A registry with two servers whose templates are both prefixes of the arguments of the
  single entry installed on Continue.
\<close>

definition overlapping_env :: env where
  "overlapping_env =
     example_env
       [server ''y'' ''npx'' [''-y''], server ''fs'' ''npx'' [''-y'', ''fs-server'']]
       (Inl ''ENOENT'')
       (Inr (Some (continue_config [stdio_entry ''npx'' [''-y'', ''fs-server'']])))"

text \<open>
  The same two overlapping templates with a third server between them; Continue's file
  holds an entry for the third server and, after it, an entry that both templates match.
\<close>

definition overlapping_files_env :: env where
  "overlapping_files_env =
     example_env
       [server ''y'' ''npx'' [''-y''], server ''git'' ''uvx'' [''git-server''],
        server ''fs'' ''npx'' [''-y'', ''fs-server'']]
       (Inl ''ENOENT'')
       (Inr (Some (continue_config
          [stdio_entry ''uvx'' [''git-server''], stdio_entry ''npx'' [''-y'', ''fs-server'']])))"

text \<open>
  A registry that lists server \<^verbatim>\<open>a\<close> before server \<^verbatim>\<open>b\<close>; Continue's file lists the entry
  of \<^verbatim>\<open>b\<close> before the entry of \<^verbatim>\<open>a\<close>, and Claude's file lists the key \<^verbatim>\<open>zeta\<close> before the
  key \<^verbatim>\<open>7\<close>.
\<close>

definition reordered_env :: env where
  "reordered_env =
     example_env
       [server ''a'' ''npx'' [''a-server''], server ''b'' ''npx'' [''b-server'']]
       (Inr (Some (claude_config [''zeta'', ''7''])))
       (Inr (Some (continue_config
          [stdio_entry ''npx'' [''b-server''], stdio_entry ''npx'' [''a-server'']])))"

section \<open>Properties\<close>

subsection \<open>\<^verbatim>\<open>JSON.stringify\<close> distinguishes arrays of strings\<close>

lemma hex_digit_inj: "i < 16 \<Longrightarrow> j < 16 \<Longrightarrow> hex_digit i = hex_digit j \<Longrightarrow> i = j"
  unfolding hex_digit_def
  by (subst (asm) nth_eq_iff_index_eq) simp_all

lemma hex_pair_inj:
  assumes "n < 32" "m < 32"
    and "hex_digit (n div 16) = hex_digit (m div 16)"
    and "hex_digit (n mod 16) = hex_digit (m mod 16)"
  shows "n = (m::nat)"
proof -
  have "n div 16 = m div 16" using assms by (intro hex_digit_inj) auto
  moreover have "n mod 16 = m mod 16" using assms by (intro hex_digit_inj) auto
  ultimately show ?thesis by (metis div_mult_mod_eq)
qed

lemma escape_unit_nonempty: "escape_unit c \<noteq> []"
  by (simp add: escape_unit_def)

lemma escape_unit_hd: "hd (escape_unit c) \<noteq> CHR 0x22"
  by (simp add: escape_unit_def)

lemma escape_unit_prefix:
  assumes "escape_unit c @ u = escape_unit d @ v"
  shows "c = d \<and> u = v"
  using assms hex_pair_inj [of "of_char c" "of_char d"]
  by (auto simp: escape_unit_def split: if_splits)


lemma escaped_body_inj:
  "concat (map escape_unit s) @ CHR 0x22 # u = concat (map escape_unit t) @ CHR 0x22 # v
   \<Longrightarrow> s = t \<and> u = v"
proof (induction s arbitrary: t)
  case Nil
  show ?case
  proof (cases t)
    case Nil
    with Nil.prems show ?thesis by simp
  next
    case (Cons d t')
    with Nil.prems have "hd (escape_unit d @ concat (map escape_unit t') @ CHR 0x22 # v) = CHR 0x22"
      by (metis append.assoc append_Nil concat.simps(1,2) list.map(1,2) list.sel(1))
    then have "hd (escape_unit d) = CHR 0x22"
      by (simp add: escape_unit_nonempty)
    then show ?thesis by (simp add: escape_unit_hd)
  qed
next
  case (Cons c s')
  show ?case
  proof (cases t)
    case Nil
    with Cons.prems have "hd (escape_unit c @ concat (map escape_unit s') @ CHR 0x22 # u) = CHR 0x22"
      by simp
    then have "hd (escape_unit c) = CHR 0x22"
      by (simp add: escape_unit_nonempty)
    then show ?thesis by (simp add: escape_unit_hd)
  next
    case (Cons d t')
    with Cons.prems have
      "escape_unit c @ (concat (map escape_unit s') @ CHR 0x22 # u)
       = escape_unit d @ (concat (map escape_unit t') @ CHR 0x22 # v)"
      by simp
    then have cd: "c = d"
      and rest: "concat (map escape_unit s') @ CHR 0x22 # u = concat (map escape_unit t') @ CHR 0x22 # v"
      using escape_unit_prefix by blast+
    from Cons.IH [OF rest] cd Cons show ?thesis by simp
  qed
qed

lemma QuoteJSONString_prefix:
  "QuoteJSONString s @ u = QuoteJSONString t @ v \<Longrightarrow> s = t \<and> u = v"
  using escaped_body_inj [of s u t v] by (simp add: QuoteJSONString_def)

lemma join_quoted_inj:
  "join_commas (map QuoteJSONString xs) @ CHR '']'' # u
   = join_commas (map QuoteJSONString ys) @ CHR '']'' # v \<Longrightarrow> xs = ys"
proof (induction xs arbitrary: ys)
  case Nil
  then show ?case
    by (cases ys rule: join_commas.cases) (auto simp: QuoteJSONString_def)
next
  case (Cons x xs')
  show ?case
  proof (cases ys)
    case Nil
    with Cons.prems show ?thesis
      by (cases xs') (auto simp: QuoteJSONString_def)
  next
    case (Cons y ys')
    define rx where "rx = (case xs' of [] \<Rightarrow> CHR '']'' # u | _ \<Rightarrow> CHR '','' # join_commas (map QuoteJSONString xs') @ CHR '']'' # u)"
    define ry where "ry = (case ys' of [] \<Rightarrow> CHR '']'' # v | _ \<Rightarrow> CHR '','' # join_commas (map QuoteJSONString ys') @ CHR '']'' # v)"
    have lx: "join_commas (map QuoteJSONString (x # xs')) @ CHR '']'' # u = QuoteJSONString x @ rx"
      by (cases xs') (simp_all add: rx_def)
    have ly: "join_commas (map QuoteJSONString (y # ys')) @ CHR '']'' # v = QuoteJSONString y @ ry"
      by (cases ys') (simp_all add: ry_def)
    from Cons.prems Cons lx ly have "QuoteJSONString x @ rx = QuoteJSONString y @ ry" by simp
    then have xy: "x = y" and r: "rx = ry" using QuoteJSONString_prefix by blast+
    have "xs' = ys'"
    proof (cases xs')
      case Nil
      with r show ?thesis by (cases ys') (simp_all add: rx_def ry_def)
    next
      case (Cons a as)
      with r obtain b bs where ys': "ys' = b # bs" by (cases ys') (simp_all add: rx_def ry_def)
      with r Cons have "join_commas (map QuoteJSONString xs') @ CHR '']'' # u
        = join_commas (map QuoteJSONString ys') @ CHR '']'' # v"
        by (simp add: rx_def ry_def)
      then show ?thesis by (rule Cons.IH)
    qed
    with xy Cons show ?thesis by simp
  qed
qed

lemma stringify_strings_inj:
  "JSON_stringify (JArr (map JStr xs)) = JSON_stringify (JArr (map JStr ys)) \<longleftrightarrow> xs = ys"
proof
  assume "JSON_stringify (JArr (map JStr xs)) = JSON_stringify (JArr (map JStr ys))"
  then have "join_commas (map QuoteJSONString xs) @ CHR '']'' # []
    = join_commas (map QuoteJSONString ys) @ CHR '']'' # []"
    by (simp add: comp_def)
  then show "xs = ys" by (rule join_quoted_inj)
qed simp

subsection \<open>The callback on entries of the declared shape\<close>

lemma installed_matches_carries:
  assumes "carries x c as"
  shows "installed_matches r x = Inr (prefix_match r (c, as))"
proof -
  from assms obtain t where
    t: "js_get (Some x) ''transport'' = Inr (Some t)"
    and c: "js_get (Some t) ''command'' = Inr (Some (JStr c))"
    and a: "js_get (Some t) ''args'' = Inr (Some (JArr (map JStr as)))"
    by (auto simp: carries_def split: sum.splits option.splits)
  have "JSON_stringify (JArr (take n (map JStr as))) = JSON_stringify (JArr (map JStr ys))
        \<longleftrightarrow> take n as = ys" for n ys
    using stringify_strings_inj [of "take n as" ys] by (simp add: take_map)
  with t c a show ?thesis
    by (auto simp: installed_matches_def prefix_match_def)
qed

lemma some_installed_well_shaped:
  assumes "well_shaped xs refs"
  shows "some_installed r xs = Inr (\<exists>ref \<in> set refs. prefix_match r ref)"
  using assms unfolding well_shaped_def
proof (induction xs refs rule: list_all2_induct)
  case Nil
  show ?case by simp
next
  case (Cons x xs ref refs)
  from Cons.hyps(1) have "installed_matches r x = Inr (prefix_match r ref)"
    using installed_matches_carries [of x "fst ref" "snd ref" r] by simp
  with Cons.IH show ?case by (cases "prefix_match r ref") simp_all
qed

lemma filter_servers_well_shaped:
  assumes "well_shaped xs refs"
  shows "filter_servers (JArr xs) srvs
         = Inr (filter (\<lambda>r. \<exists>ref \<in> set refs. prefix_match r ref) srvs)"
  by (induction srvs) (simp_all add: some_installed_well_shaped [OF assms])

lemma validServers_well_shaped:
  assumes "well_shaped xs refs"
  shows "validServers srvs (JArr xs)
         = Inr (map id' (filter (\<lambda>r. \<exists>ref \<in> set refs. prefix_match r ref) srvs))"
  by (simp add: validServers_def filter_servers_well_shaped [OF assms])

lemma filter_servers_Inr:
  "filter_servers inst srvs = Inr kept
   \<Longrightarrow> kept = filter (\<lambda>r. installedServers_some inst r = Inr True) srvs"
  by (induction srvs arbitrary: kept) (auto split: sum.splits if_splits)

subsection \<open>Entries of the logged lines\<close>

lemma entries_append: "entries (xs @ ys) = entries xs @ entries ys"
  by (induction xs rule: entries.induct) simp_all

lemma entries_server_lines:
  "entries (map (\<lambda>(index, serverId). ServerLine (g index) serverId) (enumerate n xs))
   = map (\<lambda>i. (i, True)) xs"
  by (induction xs arbitrary: n) simp_all

lemma entries_unknown_lines_aux:
  "entries (map (\<lambda>(index, serverId). UnknownLine (g index) serverId) (enumerate n xs))
   = map (\<lambda>i. (i, False)) xs"
  by (induction xs arbitrary: n) simp_all

lemma entries_registered_lines:
  "entries (registered_lines registered unknown) = map (\<lambda>i. (i, True)) registered"
  unfolding registered_lines_def by (rule entries_server_lines)

lemma entries_unknown_lines: "entries (unknown_lines unknown) = map (\<lambda>i. (i, False)) unknown"
  unfolding unknown_lines_def by (rule entries_unknown_lines_aux)

lemma entries_valid_lines: "entries (valid_lines valid) = map (\<lambda>i. (i, True)) valid"
  unfolding valid_lines_def by (rule entries_server_lines)

lemma is_registered_iff: "is_registered srvs i \<longleftrightarrow> (\<exists>r \<in> set srvs. id' r = i)"
  by (simp add: is_registered_def list_ex_iff)

lemma entries_claude_report:
  "entries (snd (claude_report srvs ks))
   = map (\<lambda>i. (i, True)) (registeredServers srvs ks) @ map (\<lambda>i. (i, False)) (unknownServers srvs ks)"
  by (simp add: claude_report_def Let_def entries_append entries_registered_lines
      entries_unknown_lines registeredServers_def unknownServers_def)

lemma fst_claude_report: "fst (claude_report srvs ks) \<longleftrightarrow> entries (snd (claude_report srvs ks)) \<noteq> []"
proof (cases ks)
  case Nil
  then show ?thesis by (simp add: claude_report_def)
next
  case (Cons k ks')
  have "registeredServers srvs ks \<noteq> [] \<or> unknownServers srvs ks \<noteq> []"
    unfolding registeredServers_def unknownServers_def Cons
    by (cases "is_registered srvs k") simp_all
  moreover have "fst (claude_report srvs ks)" using Cons by (simp add: claude_report_def Let_def)
  ultimately show ?thesis by (simp add: entries_claude_report)
qed

lemma claude_report_found:
  "claude_report srvs ks = (found, lines) \<Longrightarrow> found \<longleftrightarrow> entries lines \<noteq> []"
  using fst_claude_report [of srvs ks] by simp

lemma entries_continue_report: "entries (snd (continue_report valid)) = map (\<lambda>i. (i, True)) valid"
  by (simp add: continue_report_def entries_valid_lines)

lemma fst_continue_report: "fst (continue_report valid) \<longleftrightarrow> entries (snd (continue_report valid)) \<noteq> []"
  by (simp add: continue_report_def entries_valid_lines)

lemma continue_report_found:
  "continue_report valid = (found, lines) \<Longrightarrow> found \<longleftrightarrow> entries lines \<noteq> []"
  using fst_continue_report [of valid] by simp

subsection \<open>The inspectors and the log\<close>

lemma catch_clause_Inr: "catch_clause err = Inr b \<longleftrightarrow> \<not> b \<and> err = SystemError ''ENOENT''"
  by (auto simp: catch_clause_def)

lemma catch_false_iff: "catch_false r \<longleftrightarrow> r = Inr True"
  by (cases r) simp_all

text \<open>An inspector only appends to the log, and what it appends does not depend on the log.\<close>

lemma listClaudeServers_frame:
  "listClaudeServers e out = (fst (listClaudeServers e []), out @ snd (listClaudeServers e []))"
  by (simp add: listClaudeServers_def split: sum.splits prod.splits)

lemma listContinueServers_frame:
  "listContinueServers e out = (fst (listContinueServers e []), out @ snd (listContinueServers e []))"
  by (simp add: listContinueServers_def split: sum.splits prod.splits)

lemma inspect_frame: "inspect c e out = (fst (inspect c e []), out @ snd (inspect c e []))"
  by (cases c) (simp_all add: listClaudeServers_frame [of e out] listContinueServers_frame [of e out])

text \<open>An inspector that throws has logged nothing; one that returns tells whether it logged entries.\<close>

lemma listClaudeServers_Inl: "fst (listClaudeServers e []) = Inl err \<Longrightarrow> snd (listClaudeServers e []) = []"
  by (auto simp: listClaudeServers_def split: sum.splits prod.splits)

lemma listContinueServers_Inl:
  "fst (listContinueServers e []) = Inl err \<Longrightarrow> snd (listContinueServers e []) = []"
  by (auto simp: listContinueServers_def split: sum.splits prod.splits)

lemma listClaudeServers_Inr:
  "fst (listClaudeServers e []) = Inr found \<Longrightarrow> found \<longleftrightarrow> entries (snd (listClaudeServers e [])) \<noteq> []"
  by (auto simp: listClaudeServers_def catch_clause_Inr split: sum.splits prod.splits
      dest: claude_report_found)

lemma listContinueServers_Inr:
  "fst (listContinueServers e []) = Inr found
   \<Longrightarrow> found \<longleftrightarrow> entries (snd (listContinueServers e [])) \<noteq> []"
  by (auto simp: listContinueServers_def catch_clause_Inr split: sum.splits prod.splits
      dest: continue_report_found)

lemma listClaudeServers_parsed:
  assumes "read_config e (claude_configPath e) = Inr parsed"
    and "claude_installedServers parsed = Inr ks"
  shows "listClaudeServers e out = (Inr (ks \<noteq> []), out @ snd (claude_report (servers e) ks))"
  using assms by (simp add: listClaudeServers_def claude_report_def Let_def)

lemma listContinueServers_parsed:
  assumes "read_config e (continue_configPath e) = Inr parsed"
    and "continue_installedServers parsed = Inr inst"
    and "validServers (servers e) inst = Inr valid"
  shows "listContinueServers e out = (Inr (valid \<noteq> []), out @ snd (continue_report valid))"
  using assms by (simp add: listContinueServers_def continue_report_def)

lemma inspect_read_failure:
  assumes "read_config e (configPath c e) = Inl err"
  shows "inspect c e out = (catch_clause err, out)"
  using assms by (cases c) (simp_all add: configPath_def listClaudeServers_def listContinueServers_def)

subsection \<open>The example environments\<close>

lemma example_env_simps:
  "servers (example_env srvs cf nf) = srvs"
  "read_config (example_env srvs cf nf) (claude_configPath (example_env srvs cf nf))
   = (case cf of Inl code \<Rightarrow> Inl (SystemError code) | Inr None \<Rightarrow> Inl SyntaxError | Inr (Some v) \<Rightarrow> Inr v)"
  "read_config (example_env srvs cf nf) (continue_configPath (example_env srvs cf nf))
   = (case nf of Inl code \<Rightarrow> Inl (SystemError code) | Inr None \<Rightarrow> Inl SyntaxError | Inr (Some v) \<Rightarrow> Inr v)"
  by (simp_all add: example_env_def read_config_def claude_configPath_def continue_configPath_def
      split: sum.splits option.splits)

lemma example_env_readFile:
  "readFile (example_env srvs cf nf) (claude_configPath (example_env srvs cf nf))
   = (case cf of Inl code \<Rightarrow> Inl code | Inr v \<Rightarrow> Inr ''claude'')"
  "readFile (example_env srvs cf nf) (continue_configPath (example_env srvs cf nf))
   = (case nf of Inl code \<Rightarrow> Inl code | Inr v \<Rightarrow> Inr ''continue'')"
  "JSON_parse (example_env srvs cf nf) ''claude'' = (case cf of Inl code \<Rightarrow> None | Inr v \<Rightarrow> v)"
  "JSON_parse (example_env srvs cf nf) ''continue'' = (case nf of Inl code \<Rightarrow> None | Inr v \<Rightarrow> v)"
  by (simp_all add: example_env_def claude_configPath_def continue_configPath_def)

lemma carries_stdio_entry: "carries (stdio_entry c as) c as"
  by (simp add: carries_def stdio_entry_def)

lemma continue_installedServers_config: "continue_installedServers (continue_config xs) = Inr (JArr xs)"
  by (simp add: continue_installedServers_def continue_config_def or_else_def)

subsection \<open>Continue's listing\<close>

lemma listContinueServers_well_shaped:
  assumes "read_config e (continue_configPath e) = Inr parsed"
    and "continue_installedServers parsed = Inr (JArr xs)"
    and "well_shaped xs refs"
  shows "entries (snd (listContinueServers e []))
         = map (\<lambda>r. (id' r, True)) (filter (\<lambda>r. \<exists>ref \<in> set refs. prefix_match r ref) (servers e))"
    and "fst (listContinueServers e [])
         = Inr (\<exists>r \<in> set (servers e). \<exists>ref \<in> set refs. prefix_match r ref)"
  using listContinueServers_parsed [OF assms(1,2) validServers_well_shaped [OF assms(3)], of "[]"]
  by (simp_all add: entries_continue_report comp_def filter_empty_conv)

text \<open>Whatever the file holds, the entries are those of a filter of the registry.\<close>

lemma listContinueServers_filter:
  "\<exists>P. entries (snd (listContinueServers e [])) = map (\<lambda>r. (id' r, True)) (filter P (servers e))"
proof (cases "\<exists>parsed inst kept. read_config e (continue_configPath e) = Inr parsed
    \<and> continue_installedServers parsed = Inr inst \<and> filter_servers inst (servers e) = Inr kept")
  case True
  then obtain parsed inst kept where
    r: "read_config e (continue_configPath e) = Inr parsed"
    and i: "continue_installedServers parsed = Inr inst"
    and k: "filter_servers inst (servers e) = Inr kept"
    by blast
  from k have v: "validServers (servers e) inst = Inr (map id' kept)"
    by (simp add: validServers_def)
  have "entries (snd (listContinueServers e [])) = map (\<lambda>r. (id' r, True)) kept"
    using listContinueServers_parsed [OF r i v, of "[]"]
    by (simp add: entries_continue_report comp_def)
  with filter_servers_Inr [OF k] show ?thesis by blast
next
  case False
  then have "snd (listContinueServers e []) = []"
    by (auto simp: listContinueServers_def validServers_def split: sum.splits)
  then have "entries (snd (listContinueServers e []))
             = map (\<lambda>r. (id' r, True)) (filter (\<lambda>r. False) (servers e))"
    by simp
  then show ?thesis by blast
qed

lemma subseq_filter_implies:
  assumes "\<And>x. P x \<Longrightarrow> Q x"
  shows "subseq (filter P xs) (filter Q xs)"
  using assms by (induction xs) auto

lemma count_list_map_filter: "count_list (map f (filter P xs)) x \<le> count_list (map f xs) x"
  by (induction xs) simp_all

subsection \<open>Property keys\<close>

lemma set_first_occurrences: "set (first_occurrences xs) = set xs"
  by (simp add: first_occurrences_def)

lemma set_own_keys: "set (own_keys ks) = set ks"
  by (auto simp: own_keys_def set_first_occurrences)

lemma first_occurrences_distinct: "distinct xs \<Longrightarrow> first_occurrences xs = xs"
  by (simp add: first_occurrences_def distinct_remdups_id)

lemma own_keys_named:
  assumes "distinct ks" and "\<forall>k \<in> set ks. \<not> is_array_index k"
  shows "own_keys ks = ks"
proof -
  from assms(2) have "filter is_array_index ks = []" and "filter (\<lambda>k. \<not> is_array_index k) ks = ks"
    by (simp_all add: filter_empty_conv filter_id_conv)
  with assms(1) show ?thesis
    by (simp add: own_keys_def first_occurrences_distinct)
qed

lemma claude_installedServers_object:
  assumes "js_get (Some parsed) ''mcpServers'' = Inr (Some (JObj kvs))"
  shows "claude_installedServers parsed = Inr (own_keys (map fst kvs))"
  using assms by (simp add: claude_installedServers_def or_else_def)

lemma well_shaped_filter:
  assumes "well_shaped xs refs"
    and "\<And>x ref. carries x (fst ref) (snd ref) \<Longrightarrow> Q x \<longleftrightarrow> R ref"
  shows "well_shaped (filter Q xs) (filter R refs)"
  using assms(1) unfolding well_shaped_def
proof (induction xs refs rule: list_all2_induct)
  case Nil
  show ?case by simp
next
  case (Cons x xs ref refs)
  from assms(2) [OF Cons.hyps(1)] Cons.hyps(1) Cons.IH show ?case by simp
qed

text \<open>Entries that match no registry server can be removed without changing the result.\<close>

lemma validServers_drop_unmatched:
  assumes "well_shaped xs refs"
  shows "validServers srvs (JArr (filter (\<lambda>x. \<exists>r \<in> set srvs. installed_matches r x = Inr True) xs))
         = validServers srvs (JArr xs)"
proof -
  let ?Q = "\<lambda>x. \<exists>r \<in> set srvs. installed_matches r x = Inr True"
  let ?R = "\<lambda>ref. \<exists>r \<in> set srvs. prefix_match r ref"
  have "?Q x \<longleftrightarrow> ?R ref" if "carries x (fst ref) (snd ref)" for x ref
    using installed_matches_carries [OF that] by simp
  then have w: "well_shaped (filter ?Q xs) (filter ?R refs)"
    by (rule well_shaped_filter [OF assms])
  have "filter (\<lambda>r. \<exists>ref \<in> set (filter ?R refs). prefix_match r ref) srvs
        = filter (\<lambda>r. \<exists>ref \<in> set refs. prefix_match r ref) srvs"
    by (rule filter_cong) auto
  then show ?thesis
    by (simp only: validServers_well_shaped [OF w] validServers_well_shaped [OF assms])
qed

section \<open>The claims\<close>

subsection \<open>Reconciliation\<close>

text \<open>
  C1. Structural-prefix reconciliation (Continue): an installed entry carrying a command
  and a sequence of string arguments matches a registry server exactly when the commands
  are equal and the arguments, truncated to the length of the server's argument template,
  are equal to the template. In particular the template followed by any extra arguments
  matches, and arguments that differ from the template at an index within the template's
  length (or end before it) do not match even when the command is the server's.
\<close>

theorem structural_prefix_match:
  assumes "carries installed c as"
  shows "installed_matches r installed
           = Inr (c = command (config r) \<and> take (length (args (config r))) as = args (config r))
         \<and> (c = command (config r) \<and> as = args (config r) @ extra
              \<longrightarrow> installed_matches r installed = Inr True)
         \<and> (c = command (config r) \<and> i < length (args (config r))
              \<and> (length as \<le> i \<or> as ! i \<noteq> args (config r) ! i)
              \<longrightarrow> installed_matches r installed = Inr False)"
proof -
  have m: "installed_matches r installed
           = Inr (c = command (config r) \<and> take (length (args (config r))) as = args (config r))"
    using installed_matches_carries [OF assms, of r] by (simp add: prefix_match_def)
  have "take (length (args (config r))) as \<noteq> args (config r)"
    if i: "i < length (args (config r))" and d: "length as \<le> i \<or> as ! i \<noteq> args (config r) ! i"
  proof
    assume eq: "take (length (args (config r))) as = args (config r)"
    then have "length (take (length (args (config r))) as) = length (args (config r))"
      by simp
    then have "length (args (config r)) \<le> length as"
      by (simp add: min_def split: if_splits)
    with i d have "as ! i \<noteq> args (config r) ! i" by simp
    moreover from i have "take (length (args (config r))) as ! i = as ! i" by simp
    ultimately show False using eq by simp
  qed
  with m show ?thesis by auto
qed

theorem structural_prefix_match_witness:
  "carries (stdio_entry ''npx'' [''-y'', ''fs-server'', ''--verbose''])
     ''npx'' [''-y'', ''fs-server'', ''--verbose'']
   \<and> installed_matches (server ''fs'' ''npx'' [''-y'', ''fs-server''])
       (stdio_entry ''npx'' [''-y'', ''fs-server'', ''--verbose'']) = Inr True
   \<and> carries (stdio_entry ''npx'' [''run'', ''fs-server'']) ''npx'' [''run'', ''fs-server'']
   \<and> installed_matches (server ''fs'' ''npx'' [''-y'', ''fs-server''])
       (stdio_entry ''npx'' [''run'', ''fs-server'']) = Inr False"
proof -
  have h1: "carries (stdio_entry ''npx'' [''-y'', ''fs-server'', ''--verbose''])
              ''npx'' [''-y'', ''fs-server'', ''--verbose'']"
    by (rule carries_stdio_entry)
  have h2: "carries (stdio_entry ''npx'' [''run'', ''fs-server'']) ''npx'' [''run'', ''fs-server'']"
    by (rule carries_stdio_entry)
  show ?thesis
    using h1 h2
      structural_prefix_match [OF h1, of "server ''fs'' ''npx'' [''-y'', ''fs-server'']"
        "[''--verbose'']" 0]
      structural_prefix_match [OF h2, of "server ''fs'' ''npx'' [''-y'', ''fs-server'']" "[]" 0]
    by (simp add: server_def)
qed

text \<open>
  C2. Exact-key reconciliation (Claude): every key that the inspector reads from
  \<^verbatim>\<open>mcpServers\<close> is shown as a registry server exactly when some registry server has that
  key as its id, and as an unknown server exactly when none has.
\<close>

theorem exact_key_reconciliation:
  assumes "read_config e (claude_configPath e) = Inr parsed"
    and "claude_installedServers parsed = Inr installedServers"
    and "x \<in> set installedServers"
  shows "((x, True) \<in> set (entries (snd (listClaudeServers e [])))
            \<longleftrightarrow> (\<exists>r \<in> set (servers e). id' r = x))
         \<and> ((x, False) \<in> set (entries (snd (listClaudeServers e [])))
            \<longleftrightarrow> \<not> (\<exists>r \<in> set (servers e). id' r = x))"
  using assms(3)
  by (auto simp: listClaudeServers_parsed [OF assms(1,2)] entries_claude_report
      registeredServers_def unknownServers_def is_registered_iff)

theorem exact_key_reconciliation_witness:
  "read_config (example_env [server ''fs'' ''npx'' [''-y'', ''fs-server'']]
       (Inr (Some (claude_config [''fs'', ''ghost'']))) (Inl ''ENOENT''))
     (claude_configPath (example_env [server ''fs'' ''npx'' [''-y'', ''fs-server'']]
       (Inr (Some (claude_config [''fs'', ''ghost'']))) (Inl ''ENOENT'')))
   = Inr (claude_config [''fs'', ''ghost''])
   \<and> claude_installedServers (claude_config [''fs'', ''ghost'']) = Inr [''fs'', ''ghost'']
   \<and> (''fs'', True) \<in> set (entries (snd (listClaudeServers
        (example_env [server ''fs'' ''npx'' [''-y'', ''fs-server'']]
          (Inr (Some (claude_config [''fs'', ''ghost'']))) (Inl ''ENOENT'')) [])))
   \<and> (''ghost'', False) \<in> set (entries (snd (listClaudeServers
        (example_env [server ''fs'' ''npx'' [''-y'', ''fs-server'']]
          (Inr (Some (claude_config [''fs'', ''ghost'']))) (Inl ''ENOENT'')) [])))"
proof -
  let ?e = "example_env [server ''fs'' ''npx'' [''-y'', ''fs-server'']]
              (Inr (Some (claude_config [''fs'', ''ghost'']))) (Inl ''ENOENT'')"
  have h1: "read_config ?e (claude_configPath ?e) = Inr (claude_config [''fs'', ''ghost''])"
    by (simp add: example_env_simps)
  have h2: "claude_installedServers (claude_config [''fs'', ''ghost'']) = Inr [''fs'', ''ghost'']"
    by (simp add: claude_installedServers_def claude_config_def or_else_def own_keys_def
        first_occurrences_def is_array_index_def is_digit_def)
  show ?thesis
    using h1 h2
      exact_key_reconciliation [OF h1 h2, of "''fs''"]
      exact_key_reconciliation [OF h1 h2, of "''ghost''"]
    by (simp add: example_env_simps server_def)
qed

subsection \<open>Files that are absent or unreadable\<close>

text \<open>
  C6. Absent file: when the read of a client's configuration file is rejected with
  \<^verbatim>\<open>ENOENT\<close>, the client's inspector returns \<^verbatim>\<open>false\<close>, logs nothing and throws nothing;
  a run that selects this client ends normally with the message of an empty listing.
\<close>

theorem absent_file_is_empty:
  assumes "readFile e (configPath c e) = Inl ''ENOENT''"
  shows "inspect c e out = (Inr False, out)
         \<and> run e (Some c) = (Inr (), [NoServersOn (clientDisplayNames c), EmptyLine])"
proof -
  from assms have r: "read_config e (configPath c e) = Inl (SystemError ''ENOENT'')"
    by (simp add: read_config_def)
  have i: "inspect c e out' = (Inr False, out')" for out'
    using inspect_read_failure [OF r, of out'] by (simp add: catch_clause_def)
  from i [of "[]"] have "track_selected e (Some c) [] = (Inr False, [])"
    by (cases c) (simp_all add: track_selected_def trackServers_def)
  with i [of out] show ?thesis by (simp add: run_def)
qed

theorem absent_file_is_empty_witness:
  "readFile (example_env [] (Inl ''ENOENT'') (Inl ''ENOENT''))
     (configPath Claude (example_env [] (Inl ''ENOENT'') (Inl ''ENOENT''))) = Inl ''ENOENT''
   \<and> listClaudeServers (example_env [] (Inl ''ENOENT'') (Inl ''ENOENT'')) [] = (Inr False, [])
   \<and> run (example_env [] (Inl ''ENOENT'') (Inl ''ENOENT'')) (Some Claude)
       = (Inr (), [NoServersOn ''Claude Desktop'', EmptyLine])"
proof -
  let ?e = "example_env [] (Inl ''ENOENT'') (Inl ''ENOENT'')"
  have h: "readFile ?e (configPath Claude ?e) = Inl ''ENOENT''"
    by (simp add: configPath_def example_env_readFile)
  show ?thesis
    using h absent_file_is_empty [OF h, of "[]"] by simp
qed

text \<open>
  C7. When one client is selected and its configuration file cannot be read for a reason
  other than \<^verbatim>\<open>ENOENT\<close>, or is read but rejected by \<^verbatim>\<open>JSON.parse\<close>, the run ends with that
  error thrown to the caller, and nothing is logged.
\<close>

theorem selected_client_failure_propagates:
  assumes "(\<exists>code. readFile e (configPath c e) = Inl code \<and> code \<noteq> ''ENOENT''
              \<and> err = SystemError code)
           \<or> (\<exists>content. readFile e (configPath c e) = Inr content
              \<and> JSON_parse e content = None \<and> err = SyntaxError)"
  shows "run e (Some c) = (Inl err, [])"
proof -
  from assms have r: "read_config e (configPath c e) = Inl err"
    and ne: "err \<noteq> SystemError ''ENOENT''"
    by (auto simp: read_config_def)
  from inspect_read_failure [OF r, of "[]"] ne have "inspect c e [] = (Inl err, [])"
    by (simp add: catch_clause_def)
  then have "track_selected e (Some c) [] = (Inl err, [])"
    by (cases c) (simp_all add: track_selected_def)
  then show ?thesis by (simp add: run_def)
qed

theorem selected_client_failure_propagates_witness:
  "readFile (example_env [] (Inr None) (Inl ''EACCES''))
     (configPath Claude (example_env [] (Inr None) (Inl ''EACCES''))) = Inr ''claude''
   \<and> JSON_parse (example_env [] (Inr None) (Inl ''EACCES'')) ''claude'' = None
   \<and> run (example_env [] (Inr None) (Inl ''EACCES'')) (Some Claude) = (Inl SyntaxError, [])
   \<and> readFile (example_env [] (Inr None) (Inl ''EACCES''))
       (configPath Continue (example_env [] (Inr None) (Inl ''EACCES''))) = Inl ''EACCES''
   \<and> run (example_env [] (Inr None) (Inl ''EACCES'')) (Some Continue)
       = (Inl (SystemError ''EACCES''), [])"
proof -
  let ?e = "example_env [] (Inr None) (Inl ''EACCES'')"
  have h1: "readFile ?e (configPath Claude ?e) = Inr ''claude''"
    and h2: "JSON_parse ?e ''claude'' = None"
    and h3: "readFile ?e (configPath Continue ?e) = Inl ''EACCES''"
    by (simp_all add: configPath_def example_env_readFile)
  show ?thesis
    using h1 h2 h3
      selected_client_failure_propagates [of ?e Claude SyntaxError]
      selected_client_failure_propagates [of ?e Continue "SystemError ''EACCES''"]
    by simp
qed

subsection \<open>The aggregator\<close>

text \<open>
  C8. With no client selected the run never throws. Its log is what the inspector of
  Claude logs, then what the inspector of Continue logs, then the closing lines, where the
  message of an empty listing is logged unless one of the two inspectors returned
  \<^verbatim>\<open>true\<close>. An inspector that throws has logged nothing and does not count as having
  found servers: \<^verbatim>\<open>foundServers\<close> and the lines are then exactly the result and the
  lines of the other inspector on its own, and when both throw the run logs only the
  message of an empty listing and the final empty line.
\<close>

theorem all_clients_best_effort:
  "run e None
     = (Inr (),
        snd (listClaudeServers e []) @ snd (listContinueServers e [])
        @ (if fst (listClaudeServers e []) = Inr True
              \<or> fst (listContinueServers e []) = Inr True
           then [] else [NoServers])
        @ [EmptyLine])
   \<and> (fst (listClaudeServers e []) = Inl err
        \<longrightarrow> snd (listClaudeServers e []) = []
            \<and> track_selected e None []
                = (Inr (fst (listContinueServers e []) = Inr True),
                   snd (listContinueServers e [])))
   \<and> (fst (listContinueServers e []) = Inl err
        \<longrightarrow> snd (listContinueServers e []) = []
            \<and> track_selected e None []
                = (Inr (fst (listClaudeServers e []) = Inr True),
                   snd (listClaudeServers e [])))
   \<and> (fst (listClaudeServers e []) = Inl err \<and> fst (listContinueServers e []) = Inl err'
        \<longrightarrow> run e None = (Inr (), [NoServers, EmptyLine]))"
proof -
  obtain r1 out1 where a: "listClaudeServers e [] = (r1, out1)" by (cases "listClaudeServers e []")
  obtain r2 out2 where b: "listContinueServers e [] = (r2, out2)" by (cases "listContinueServers e []")
  from b have b': "listContinueServers e out1 = (r2, out1 @ out2)"
    using listContinueServers_frame [of e out1] by simp
  have t: "track_selected e None [] = (Inr (r1 = Inr True \<or> r2 = Inr True), out1 @ out2)"
    by (simp add: track_selected_def a b' trackServers_def catch_false_iff)
  have e1: "out1 = []" if "r1 = Inl x" for x using that a listClaudeServers_Inl [of e x] by simp
  have e2: "out2 = []" if "r2 = Inl x" for x using that b listContinueServers_Inl [of e x] by simp
  from t e1 e2 show ?thesis by (auto simp: run_def a b)
qed

theorem all_clients_best_effort_witness:
  "fst (listClaudeServers
      (example_env [server ''fs'' ''npx'' [''-y'', ''fs-server'']] (Inr None)
        (Inr (Some (continue_config [stdio_entry ''npx'' [''-y'', ''fs-server'', ''--verbose'']]))))
      []) = Inl SyntaxError
   \<and> run (example_env [server ''fs'' ''npx'' [''-y'', ''fs-server'']] (Inr None)
        (Inr (Some (continue_config [stdio_entry ''npx'' [''-y'', ''fs-server'', ''--verbose'']]))))
       None
     = (Inr (), [Header ''Continue'', ServerLine Last ''fs'', EmptyLine])
   \<and> fst (listClaudeServers
      (example_env [server ''fs'' ''npx'' [''-y'', ''fs-server'']] (Inr None) (Inl ''ENOENT'')) [])
     = Inl SyntaxError
   \<and> listContinueServers
      (example_env [server ''fs'' ''npx'' [''-y'', ''fs-server'']] (Inr None) (Inl ''ENOENT'')) []
     = (Inr False, [])
   \<and> run (example_env [server ''fs'' ''npx'' [''-y'', ''fs-server'']] (Inr None) (Inl ''ENOENT''))
       None
     = (Inr (), [NoServers, EmptyLine])
   \<and> fst (listClaudeServers
      (example_env [server ''fs'' ''npx'' [''-y'', ''fs-server'']] (Inr None) (Inl ''EACCES'')) [])
     = Inl SyntaxError
   \<and> fst (listContinueServers
      (example_env [server ''fs'' ''npx'' [''-y'', ''fs-server'']] (Inr None) (Inl ''EACCES'')) [])
     = Inl (SystemError ''EACCES'')
   \<and> run (example_env [server ''fs'' ''npx'' [''-y'', ''fs-server'']] (Inr None) (Inl ''EACCES''))
       None
     = (Inr (), [NoServers, EmptyLine])"
proof -
  let ?srvs = "[server ''fs'' ''npx'' [''-y'', ''fs-server'']]"
  let ?e = "example_env ?srvs (Inr None)
        (Inr (Some (continue_config [stdio_entry ''npx'' [''-y'', ''fs-server'', ''--verbose'']])))"
  let ?n = "example_env ?srvs (Inr None) (Inl ''ENOENT'')"
  let ?b = "example_env ?srvs (Inr None) (Inl ''EACCES'')"
  have h1: "listClaudeServers ?e [] = (Inl SyntaxError, [])"
    by (simp add: listClaudeServers_def example_env_simps catch_clause_def)
  have w: "well_shaped [stdio_entry ''npx'' [''-y'', ''fs-server'', ''--verbose'']]
             [(''npx'', [''-y'', ''fs-server'', ''--verbose''])]"
    by (simp add: well_shaped_def carries_stdio_entry)
  have r: "read_config ?e (continue_configPath ?e)
           = Inr (continue_config [stdio_entry ''npx'' [''-y'', ''fs-server'', ''--verbose'']])"
    by (simp add: example_env_simps)
  have h2: "listContinueServers ?e [] = (Inr True, [Header ''Continue'', ServerLine Last ''fs''])"
    using listContinueServers_parsed [OF r continue_installedServers_config
        validServers_well_shaped [OF w], of "[]"]
    by (simp add: example_env_simps server_def prefix_match_def continue_report_def
        valid_lines_def)
  have h3: "listClaudeServers ?n [] = (Inl SyntaxError, [])"
    and h4: "listContinueServers ?n [] = (Inr False, [])"
    and h5: "listClaudeServers ?b [] = (Inl SyntaxError, [])"
    and h6: "listContinueServers ?b [] = (Inl (SystemError ''EACCES''), [])"
    by (simp_all add: listClaudeServers_def listContinueServers_def example_env_simps
        catch_clause_def)
  show ?thesis
    using all_clients_best_effort [of ?e SyntaxError]
      all_clients_best_effort [of ?n SyntaxError]
      all_clients_best_effort [of ?b SyntaxError "SystemError ''EACCES''"]
      h1 h2 h3 h4 h5 h6
    by simp
qed

text \<open>
  C9. When the inspectors that the flag selects have run without ending the run,
  \<^verbatim>\<open>foundServers\<close> is true exactly when one of them returned \<^verbatim>\<open>true\<close>, which is exactly
  when one of them logged at least one server.
\<close>

theorem found_servers_iff:
  assumes "track_selected e flag [] = (Inr foundServers, out)"
  shows "(foundServers \<longleftrightarrow> (\<exists>c \<in> set (selected flag). fst (inspect c e []) = Inr True))
         \<and> (foundServers \<longleftrightarrow> (\<exists>c \<in> set (selected flag). entries (snd (inspect c e [])) \<noteq> []))"
proof -
  have inl: "entries (snd (inspect c e [])) = []" if "fst (inspect c e []) = Inl err" for c err
    using that listClaudeServers_Inl [of e err] listContinueServers_Inl [of e err]
    by (cases c) simp_all
  have inr: "b \<longleftrightarrow> entries (snd (inspect c e [])) \<noteq> []" if "fst (inspect c e []) = Inr b" for c b
    using that listClaudeServers_Inr [of e b] listContinueServers_Inr [of e b]
    by (cases c) simp_all
  have eq: "fst (inspect c e []) = Inr True \<longleftrightarrow> entries (snd (inspect c e [])) \<noteq> []" for c
  proof (cases "fst (inspect c e [])")
    case (Inl err)
    with inl [OF Inl] show ?thesis by simp
  next
    case (Inr b)
    with inr [OF Inr] show ?thesis by simp
  qed
  have "foundServers \<longleftrightarrow> (\<exists>c \<in> set (selected flag). fst (inspect c e []) = Inr True)"
  proof (cases flag)
    case None
    obtain r1 out1 where a: "listClaudeServers e [] = (r1, out1)"
      by (cases "listClaudeServers e []")
    obtain r2 out2 where b: "listContinueServers e [] = (r2, out2)"
      by (cases "listContinueServers e []")
    from b have b': "listContinueServers e out1 = (r2, out1 @ out2)"
      using listContinueServers_frame [of e out1] by simp
    from assms None have "foundServers \<longleftrightarrow> catch_false r1 \<or> catch_false r2"
      by (simp add: track_selected_def a b' trackServers_def)
    moreover have "catch_false r \<longleftrightarrow> r = Inr True" for r by (cases r) simp_all
    ultimately show ?thesis using None a b by simp
  next
    case (Some c)
    with assms show ?thesis
      by (cases c) (auto simp: track_selected_def trackServers_def split: prod.splits sum.splits)
  qed
  with eq show ?thesis by simp
qed

theorem found_servers_iff_witness:
  "track_selected
     (example_env [server ''fs'' ''npx'' [''-y'', ''fs-server'']]
        (Inr (Some (claude_config [''fs'', ''ghost'']))) (Inl ''ENOENT'')) None []
   = (Inr True, [Header ''Claude Desktop'', ServerLine Mid ''fs'', UnknownLine Last ''ghost''])
   \<and> fst (inspect Claude
       (example_env [server ''fs'' ''npx'' [''-y'', ''fs-server'']]
          (Inr (Some (claude_config [''fs'', ''ghost'']))) (Inl ''ENOENT'')) []) = Inr True
   \<and> track_selected (example_env [] (Inl ''ENOENT'') (Inl ''ENOENT'')) None [] = (Inr False, [])
   \<and> entries (snd (inspect Claude (example_env [] (Inl ''ENOENT'') (Inl ''ENOENT'')) [])) = []
   \<and> entries (snd (inspect Continue (example_env [] (Inl ''ENOENT'') (Inl ''ENOENT'')) [])) = []"
proof -
  let ?e = "example_env [server ''fs'' ''npx'' [''-y'', ''fs-server'']]
              (Inr (Some (claude_config [''fs'', ''ghost'']))) (Inl ''ENOENT'')"
  let ?n = "example_env [] (Inl ''ENOENT'') (Inl ''ENOENT'')"
  have k: "claude_installedServers (claude_config [''fs'', ''ghost'']) = Inr [''fs'', ''ghost'']"
    by (simp add: claude_installedServers_def claude_config_def or_else_def own_keys_def
        first_occurrences_def is_array_index_def is_digit_def)
  have a: "listClaudeServers ?e out
           = (Inr True, out @ [Header ''Claude Desktop'', ServerLine Mid ''fs'', UnknownLine Last ''ghost''])"
    for out
    by (simp add: listClaudeServers_def example_env_simps k claude_report_def Let_def
        registeredServers_def unknownServers_def is_registered_def server_def
        registered_lines_def unknown_lines_def)
  have b: "listContinueServers ?e out = (Inr False, out)" for out
    by (simp add: listContinueServers_def example_env_simps catch_clause_def)
  have h1: "track_selected ?e None []
            = (Inr True, [Header ''Claude Desktop'', ServerLine Mid ''fs'', UnknownLine Last ''ghost''])"
    by (simp add: track_selected_def a b trackServers_def)
  have c: "listClaudeServers ?n out = (Inr False, out)"
    and d: "listContinueServers ?n out = (Inr False, out)" for out
    by (simp_all add: listClaudeServers_def listContinueServers_def example_env_simps
        catch_clause_def)
  have h2: "track_selected ?n None [] = (Inr False, [])"
    by (simp add: track_selected_def c d trackServers_def)
  show ?thesis
    using h1 h2 found_servers_iff [OF h1] found_servers_iff [OF h2] a [of "[]"]
    by simp
qed

subsection \<open>Continue's listing follows the registry\<close>

text \<open>
  C10. In Continue's listing every registry id is shown at most as often as the registry
  holds it, so at most once when the ids of the registry are distinct, however many
  installed entries match the same registry server; the number of entries is at most the
  number of registry servers.
\<close>

theorem continue_ids_at_most_once:
  "count_list (map fst (entries (snd (listContinueServers e [])))) x
     \<le> count_list (map id' (servers e)) x
   \<and> length (entries (snd (listContinueServers e []))) \<le> length (servers e)
   \<and> (distinct (map id' (servers e))
        \<longrightarrow> distinct (map fst (entries (snd (listContinueServers e [])))))"
proof -
  from listContinueServers_filter [of e] obtain P where
    "entries (snd (listContinueServers e [])) = map (\<lambda>r. (id' r, True)) (filter P (servers e))"
    by blast
  then have ids: "map fst (entries (snd (listContinueServers e []))) = map id' (filter P (servers e))"
    and len: "length (entries (snd (listContinueServers e []))) = length (filter P (servers e))"
    by (simp_all add: comp_def)
  show ?thesis
    unfolding ids len
    by (simp add: count_list_map_filter distinct_map_filter)
qed

theorem continue_ids_at_most_once_witness:
  "distinct (map id' (servers
      (example_env [server ''fs'' ''npx'' [''-y'', ''fs-server'']] (Inl ''ENOENT'')
        (Inr (Some (continue_config
          [stdio_entry ''npx'' [''-y'', ''fs-server''],
           stdio_entry ''npx'' [''-y'', ''fs-server'', ''--verbose'']]))))))
   \<and> entries (snd (listContinueServers
      (example_env [server ''fs'' ''npx'' [''-y'', ''fs-server'']] (Inl ''ENOENT'')
        (Inr (Some (continue_config
          [stdio_entry ''npx'' [''-y'', ''fs-server''],
           stdio_entry ''npx'' [''-y'', ''fs-server'', ''--verbose'']])))) []))
     = [(''fs'', True)]
   \<and> distinct (map fst (entries (snd (listContinueServers
      (example_env [server ''fs'' ''npx'' [''-y'', ''fs-server'']] (Inl ''ENOENT'')
        (Inr (Some (continue_config
          [stdio_entry ''npx'' [''-y'', ''fs-server''],
           stdio_entry ''npx'' [''-y'', ''fs-server'', ''--verbose'']])))) []))))"
proof -
  let ?xs = "[stdio_entry ''npx'' [''-y'', ''fs-server''],
              stdio_entry ''npx'' [''-y'', ''fs-server'', ''--verbose'']]"
  let ?e = "example_env [server ''fs'' ''npx'' [''-y'', ''fs-server'']] (Inl ''ENOENT'')
              (Inr (Some (continue_config ?xs)))"
  have h: "distinct (map id' (servers ?e))"
    by (simp add: example_env_simps)
  have w: "well_shaped ?xs
             [(''npx'', [''-y'', ''fs-server'']), (''npx'', [''-y'', ''fs-server'', ''--verbose''])]"
    by (simp add: well_shaped_def carries_stdio_entry)
  have r: "read_config ?e (continue_configPath ?e) = Inr (continue_config ?xs)"
    by (simp add: example_env_simps)
  have v: "entries (snd (listContinueServers ?e [])) = [(''fs'', True)]"
    using listContinueServers_well_shaped(1) [OF r continue_installedServers_config w]
    by (simp add: example_env_simps server_def prefix_match_def)
  show ?thesis
    using h v continue_ids_at_most_once [of ?e "''fs''"] by simp
qed

text \<open>
  C4, as stated (only the first matching registry server is listed for an installed
  entry), fails: with a registry whose servers \<^verbatim>\<open>y\<close> and \<^verbatim>\<open>fs\<close> both match the single
  installed entry, both are listed.
\<close>

theorem first_match_wins_counterexample:
  "installed_matches (server ''y'' ''npx'' [''-y'']) (stdio_entry ''npx'' [''-y'', ''fs-server''])
     = Inr True
   \<and> installed_matches (server ''fs'' ''npx'' [''-y'', ''fs-server''])
       (stdio_entry ''npx'' [''-y'', ''fs-server'']) = Inr True
   \<and> entries (snd (listContinueServers overlapping_env [])) = [(''y'', True), (''fs'', True)]"
proof -
  let ?x = "stdio_entry ''npx'' [''-y'', ''fs-server'']"
  have c: "carries ?x ''npx'' [''-y'', ''fs-server'']" by (rule carries_stdio_entry)
  have w: "well_shaped [?x] [(''npx'', [''-y'', ''fs-server''])]"
    by (simp add: well_shaped_def carries_stdio_entry)
  have r: "read_config overlapping_env (continue_configPath overlapping_env)
           = Inr (continue_config [?x])"
    by (simp add: overlapping_env_def example_env_simps)
  have "entries (snd (listContinueServers overlapping_env [])) = [(''y'', True), (''fs'', True)]"
    using listContinueServers_well_shaped(1) [OF r continue_installedServers_config w]
    by (simp add: overlapping_env_def example_env_simps server_def prefix_match_def)
  then show ?thesis
    by (simp add: installed_matches_carries [OF c] prefix_match_def server_def)
qed

text \<open>
  C4, amended: for installed entries of the declared shape, the listing holds one line for
  each registry server that structurally matches some installed entry, in the order of
  the registry. So for any installed entry, every registry server that matches it is
  listed, the lines of these servers stand in the order of the registry, and an entry
  that matches several registry servers contributes a line for each of them.
\<close>

theorem every_matching_server_listed:
  assumes "read_config e (continue_configPath e) = Inr parsed"
    and "continue_installedServers parsed = Inr (JArr xs)"
    and "well_shaped xs refs"
    and "(c, as) \<in> set refs"
  shows "entries (snd (listContinueServers e []))
           = map (\<lambda>r. (id' r, True))
               (filter (\<lambda>r. \<exists>ref \<in> set refs. fst ref = command (config r)
                              \<and> take (length (args (config r))) (snd ref) = args (config r))
                  (servers e))
         \<and> subseq
             (map (\<lambda>r. (id' r, True))
                (filter (\<lambda>r. c = command (config r)
                             \<and> take (length (args (config r))) as = args (config r))
                   (servers e)))
             (entries (snd (listContinueServers e [])))
         \<and> (\<forall>r \<in> set (servers e).
               c = command (config r) \<and> take (length (args (config r))) as = args (config r)
               \<longrightarrow> (id' r, True) \<in> set (entries (snd (listContinueServers e []))))"
proof -
  define Q where "Q = (\<lambda>r::registry_server. \<exists>ref \<in> set refs. fst ref = command (config r)
                \<and> take (length (args (config r))) (snd ref) = args (config r))"
  define P where "P = (\<lambda>r::registry_server. c = command (config r) \<and> take (length (args (config r))) as = args (config r))"
  have eq: "entries (snd (listContinueServers e []))
            = map (\<lambda>r. (id' r, True)) (filter Q (servers e))"
    using listContinueServers_well_shaped(1) [OF assms(1,2,3)]
    by (simp add: prefix_match_def Q_def)
  have pq: "Q r" if "P r" for r
    unfolding Q_def using that assms(4) by (force simp: P_def)
  have sub: "subseq (map (\<lambda>r. (id' r, True)) (filter P (servers e)))
               (entries (snd (listContinueServers e [])))"
    unfolding eq by (intro subseq_map subseq_filter_implies pq)
  have mem: "(id' r, True) \<in> set (entries (snd (listContinueServers e [])))"
    if "r \<in> set (servers e)" and "P r" for r
    unfolding eq using that pq [of r] by (simp add: image_iff) blast
  show ?thesis
  proof (intro conjI ballI impI)
    show "entries (snd (listContinueServers e []))
           = map (\<lambda>r. (id' r, True))
               (filter (\<lambda>r. \<exists>ref \<in> set refs. fst ref = command (config r)
                              \<and> take (length (args (config r))) (snd ref) = args (config r))
                  (servers e))"
      using eq by (simp only: Q_def)
    show "subseq
             (map (\<lambda>r. (id' r, True))
                (filter (\<lambda>r. c = command (config r)
                             \<and> take (length (args (config r))) as = args (config r))
                   (servers e)))
             (entries (snd (listContinueServers e [])))"
      using sub by (simp only: P_def)
    fix r
    assume "r \<in> set (servers e)"
      and "c = command (config r) \<and> take (length (args (config r))) as = args (config r)"
    then show "(id' r, True) \<in> set (entries (snd (listContinueServers e [])))"
      using mem [of r] by (simp add: P_def)
  qed
qed

theorem every_matching_server_listed_witness:
  "read_config overlapping_files_env (continue_configPath overlapping_files_env)
     = Inr (continue_config
         [stdio_entry ''uvx'' [''git-server''], stdio_entry ''npx'' [''-y'', ''fs-server'']])
   \<and> continue_installedServers (continue_config
         [stdio_entry ''uvx'' [''git-server''], stdio_entry ''npx'' [''-y'', ''fs-server'']])
     = Inr (JArr [stdio_entry ''uvx'' [''git-server''], stdio_entry ''npx'' [''-y'', ''fs-server'']])
   \<and> well_shaped
       [stdio_entry ''uvx'' [''git-server''], stdio_entry ''npx'' [''-y'', ''fs-server'']]
       [(''uvx'', [''git-server'']), (''npx'', [''-y'', ''fs-server''])]
   \<and> (''npx'', [''-y'', ''fs-server''])
       \<in> set [(''uvx'', [''git-server'']), (''npx'', [''-y'', ''fs-server''])]
   \<and> entries (snd (listContinueServers overlapping_files_env []))
     = [(''y'', True), (''git'', True), (''fs'', True)]
   \<and> subseq [(''y'', True), (''fs'', True)]
       (entries (snd (listContinueServers overlapping_files_env [])))"
proof -
  let ?xs = "[stdio_entry ''uvx'' [''git-server''], stdio_entry ''npx'' [''-y'', ''fs-server'']]"
  let ?refs = "[(''uvx'', [''git-server'']), (''npx'', [''-y'', ''fs-server''])]"
  have h1: "read_config overlapping_files_env (continue_configPath overlapping_files_env)
            = Inr (continue_config ?xs)"
    by (simp add: overlapping_files_env_def example_env_simps)
  have h2: "continue_installedServers (continue_config ?xs) = Inr (JArr ?xs)"
    by (rule continue_installedServers_config)
  have h3: "well_shaped ?xs ?refs"
    by (simp add: well_shaped_def carries_stdio_entry)
  have h4: "(''npx'', [''-y'', ''fs-server'']) \<in> set ?refs" by simp
  have s: "servers overlapping_files_env
           = [server ''y'' ''npx'' [''-y''], server ''git'' ''uvx'' [''git-server''],
              server ''fs'' ''npx'' [''-y'', ''fs-server'']]"
    by (simp add: overlapping_files_env_def example_env_simps)
  from every_matching_server_listed [OF h1 h2 h3 h4]
  have a: "entries (snd (listContinueServers overlapping_files_env []))
           = [(''y'', True), (''git'', True), (''fs'', True)]"
    and b: "subseq [(''y'', True), (''fs'', True)]
              (entries (snd (listContinueServers overlapping_files_env [])))"
    unfolding s by (simp_all add: server_def)
  from h1 h2 h3 h4 a b show ?thesis by simp
qed

subsection \<open>Unmatched entries\<close>

text \<open>
  C5. The two clients treat unmatched entries differently. Claude: every key of the
  \<^verbatim>\<open>mcpServers\<close> object that is the id of no registry server is shown, as an unknown
  server. Continue (entries of the declared shape): every line shown is that of a
  registry server matched by some installed entry, none is that of an unknown server;
  removing the entries that match no registry server from the file's list does not change
  what is listed; and when no entry matches any registry server, the inspector logs
  nothing and returns \<^verbatim>\<open>false\<close>.
\<close>

theorem unmatched_shown_by_claude_dropped_by_continue:
  "(read_config e (claude_configPath e) = Inr parsed
      \<and> js_get (Some parsed) ''mcpServers'' = Inr (Some (JObj kvs))
      \<and> (x, d) \<in> set kvs \<and> \<not> (\<exists>r \<in> set (servers e). id' r = x)
      \<longrightarrow> (x, False) \<in> set (entries (snd (listClaudeServers e []))))
   \<and> (read_config e (continue_configPath e) = Inr parsed'
      \<and> continue_installedServers parsed' = Inr (JArr xs) \<and> well_shaped xs refs
      \<longrightarrow> (\<forall>entry \<in> set (entries (snd (listContinueServers e []))).
             snd entry
             \<and> (\<exists>r \<in> set (servers e). id' r = fst entry \<and> (\<exists>ref \<in> set refs. prefix_match r ref)))
          \<and> validServers (servers e)
               (JArr (filter (\<lambda>x. \<exists>r \<in> set (servers e). installed_matches r x = Inr True) xs))
             = validServers (servers e) (JArr xs)
          \<and> ((\<forall>ref \<in> set refs. \<forall>r \<in> set (servers e). \<not> prefix_match r ref)
               \<longrightarrow> listContinueServers e [] = (Inr False, [])))"
proof (intro conjI impI)
  assume a: "read_config e (claude_configPath e) = Inr parsed
      \<and> js_get (Some parsed) ''mcpServers'' = Inr (Some (JObj kvs))
      \<and> (x, d) \<in> set kvs \<and> \<not> (\<exists>r \<in> set (servers e). id' r = x)"
  then have k: "claude_installedServers parsed = Inr (own_keys (map fst kvs))"
    by (simp add: claude_installedServers_object)
  from a have "x \<in> set (own_keys (map fst kvs))"
    by (force simp: set_own_keys)
  with a show "(x, False) \<in> set (entries (snd (listClaudeServers e [])))"
    using listClaudeServers_parsed [OF _ k, of e "[]"]
    by (auto simp: entries_claude_report unknownServers_def is_registered_iff)
next
  assume b: "read_config e (continue_configPath e) = Inr parsed'
      \<and> continue_installedServers parsed' = Inr (JArr xs) \<and> well_shaped xs refs"
  then have r: "read_config e (continue_configPath e) = Inr parsed'"
    and i: "continue_installedServers parsed' = Inr (JArr xs)"
    and w: "well_shaped xs refs"
    by simp_all
  show "\<forall>entry \<in> set (entries (snd (listContinueServers e []))).
          snd entry
          \<and> (\<exists>r \<in> set (servers e). id' r = fst entry \<and> (\<exists>ref \<in> set refs. prefix_match r ref))"
    by (auto simp: listContinueServers_well_shaped(1) [OF r i w])
  show "validServers (servers e)
          (JArr (filter (\<lambda>x. \<exists>r \<in> set (servers e). installed_matches r x = Inr True) xs))
        = validServers (servers e) (JArr xs)"
    by (rule validServers_drop_unmatched [OF w])
  show "listContinueServers e [] = (Inr False, [])"
    if n: "\<forall>ref \<in> set refs. \<forall>r \<in> set (servers e). \<not> prefix_match r ref"
  proof -
    from n have "filter (\<lambda>r. \<exists>ref \<in> set refs. prefix_match r ref) (servers e) = []"
      by (auto simp: filter_empty_conv)
    then have "validServers (servers e) (JArr xs) = Inr []"
      by (simp add: validServers_well_shaped [OF w])
    from listContinueServers_parsed [OF r i this, of "[]"] show ?thesis
      by (simp add: continue_report_def)
  qed
qed

theorem unmatched_shown_by_claude_dropped_by_continue_witness:
  "read_config
     (example_env [server ''fs'' ''npx'' [''-y'', ''fs-server'']]
        (Inr (Some (claude_config [''fs'', ''ghost''])))
        (Inr (Some (continue_config [stdio_entry ''npx'' [''run'', ''fs-server'']]))))
     (claude_configPath
       (example_env [server ''fs'' ''npx'' [''-y'', ''fs-server'']]
          (Inr (Some (claude_config [''fs'', ''ghost''])))
          (Inr (Some (continue_config [stdio_entry ''npx'' [''run'', ''fs-server'']])))))
   = Inr (claude_config [''fs'', ''ghost''])
   \<and> js_get (Some (claude_config [''fs'', ''ghost''])) ''mcpServers''
     = Inr (Some (JObj [(''fs'', JObj []), (''ghost'', JObj [])]))
   \<and> (''ghost'', False) \<in> set (entries (snd (listClaudeServers
        (example_env [server ''fs'' ''npx'' [''-y'', ''fs-server'']]
          (Inr (Some (claude_config [''fs'', ''ghost''])))
          (Inr (Some (continue_config [stdio_entry ''npx'' [''run'', ''fs-server'']])))) [])))
   \<and> well_shaped [stdio_entry ''npx'' [''run'', ''fs-server'']] [(''npx'', [''run'', ''fs-server''])]
   \<and> listContinueServers
        (example_env [server ''fs'' ''npx'' [''-y'', ''fs-server'']]
          (Inr (Some (claude_config [''fs'', ''ghost''])))
          (Inr (Some (continue_config [stdio_entry ''npx'' [''run'', ''fs-server'']])))) []
     = (Inr False, [])"
proof -
  let ?x = "stdio_entry ''npx'' [''run'', ''fs-server'']"
  let ?e = "example_env [server ''fs'' ''npx'' [''-y'', ''fs-server'']]
              (Inr (Some (claude_config [''fs'', ''ghost''])))
              (Inr (Some (continue_config [?x])))"
  have h1: "read_config ?e (claude_configPath ?e) = Inr (claude_config [''fs'', ''ghost''])"
    by (simp add: example_env_simps)
  have h2: "js_get (Some (claude_config [''fs'', ''ghost''])) ''mcpServers''
            = Inr (Some (JObj [(''fs'', JObj []), (''ghost'', JObj [])]))"
    by (simp add: claude_config_def)
  have h3: "read_config ?e (continue_configPath ?e) = Inr (continue_config [?x])"
    by (simp add: example_env_simps)
  have h4: "continue_installedServers (continue_config [?x]) = Inr (JArr [?x])"
    by (rule continue_installedServers_config)
  have h5: "well_shaped [?x] [(''npx'', [''run'', ''fs-server''])]"
    by (simp add: well_shaped_def carries_stdio_entry)
  show ?thesis
    using h1 h2 h3 h4 h5
      unmatched_shown_by_claude_dropped_by_continue
        [of ?e "claude_config [''fs'', ''ghost'']" "[(''fs'', JObj []), (''ghost'', JObj [])]"
          "''ghost''" "JObj []" "continue_config [?x]" "[?x]" "[(''npx'', [''run'', ''fs-server''])]"]
    by (simp add: example_env_simps server_def prefix_match_def)
qed

subsection \<open>Order of the listing\<close>

text \<open>
  C3, as stated (each inspector lists the entries in the order of the references in the
  file), fails. Continue's file lists the entry of server \<^verbatim>\<open>b\<close> before that of server
  \<^verbatim>\<open>a\<close>, and the listing shows \<^verbatim>\<open>a\<close> before \<^verbatim>\<open>b\<close>, as the registry does. Claude's file
  lists the key \<^verbatim>\<open>zeta\<close> before the key \<^verbatim>\<open>7\<close>, both unknown, and the listing shows \<^verbatim>\<open>7\<close>
  first.
\<close>

theorem listing_order_counterexample:
  "read_config reordered_env (continue_configPath reordered_env)
     = Inr (continue_config [stdio_entry ''npx'' [''b-server''], stdio_entry ''npx'' [''a-server'']])
   \<and> installed_matches (server ''b'' ''npx'' [''b-server'']) (stdio_entry ''npx'' [''b-server''])
       = Inr True
   \<and> installed_matches (server ''a'' ''npx'' [''a-server'']) (stdio_entry ''npx'' [''a-server''])
       = Inr True
   \<and> entries (snd (listContinueServers reordered_env [])) = [(''a'', True), (''b'', True)]
   \<and> read_config reordered_env (claude_configPath reordered_env)
       = Inr (JObj [(''mcpServers'', JObj [(''zeta'', JObj []), (''7'', JObj [])])])
   \<and> entries (snd (listClaudeServers reordered_env [])) = [(''7'', False), (''zeta'', False)]"
proof -
  let ?b = "stdio_entry ''npx'' [''b-server'']"
  let ?a = "stdio_entry ''npx'' [''a-server'']"
  have r: "read_config reordered_env (continue_configPath reordered_env)
           = Inr (continue_config [?b, ?a])"
    by (simp add: reordered_env_def example_env_simps)
  have w: "well_shaped [?b, ?a] [(''npx'', [''b-server'']), (''npx'', [''a-server''])]"
    by (simp add: well_shaped_def carries_stdio_entry)
  have n: "entries (snd (listContinueServers reordered_env [])) = [(''a'', True), (''b'', True)]"
    using listContinueServers_well_shaped(1) [OF r continue_installedServers_config w]
    by (simp add: reordered_env_def example_env_simps server_def prefix_match_def)
  have c: "read_config reordered_env (claude_configPath reordered_env)
           = Inr (JObj [(''mcpServers'', JObj [(''zeta'', JObj []), (''7'', JObj [])])])"
    by (simp add: reordered_env_def example_env_simps claude_config_def)
  have k: "claude_installedServers (JObj [(''mcpServers'', JObj [(''zeta'', JObj []), (''7'', JObj [])])])
           = Inr [''7'', ''zeta'']"
    by (simp add: claude_installedServers_def or_else_def own_keys_def first_occurrences_def
        is_array_index_def is_digit_def ToNumber_def digit_value_def)
  have m: "entries (snd (listClaudeServers reordered_env [])) = [(''7'', False), (''zeta'', False)]"
    using listClaudeServers_parsed [OF c k, of "[]"]
    by (simp add: entries_claude_report registeredServers_def unknownServers_def
        is_registered_def reordered_env_def example_env_simps server_def)
  have mb: "installed_matches (server ''b'' ''npx'' [''b-server'']) ?b = Inr True"
    and ma: "installed_matches (server ''a'' ''npx'' [''a-server'']) ?a = Inr True"
    by (simp_all add: installed_matches_carries [OF carries_stdio_entry] prefix_match_def server_def)
  from r n c m mb ma show ?thesis by simp
qed

text \<open>
  C3, amended. Claude: the keys that are ids of registry servers, in the order in which
  \<^verbatim>\<open>Object.keys\<close> enumerates the \<^verbatim>\<open>mcpServers\<close> value, followed by the other keys in that
  order; when \<^verbatim>\<open>mcpServers\<close> is an object whose keys are distinct and none of them is an
  array index, that order is the order of the file. Continue: the listed ids are a
  subsequence of the registry's ids, and for entries of the declared shape they are the
  registry servers matched by some entry, in the order of the registry, whatever the order
  of the entries in the file.
\<close>

theorem listing_order:
  "(read_config e (claude_configPath e) = Inr parsed \<and> claude_installedServers parsed = Inr ks
      \<longrightarrow> entries (snd (listClaudeServers e []))
          = map (\<lambda>i. (i, True)) (filter (\<lambda>i. \<exists>r \<in> set (servers e). id' r = i) ks)
            @ map (\<lambda>i. (i, False)) (filter (\<lambda>i. \<not> (\<exists>r \<in> set (servers e). id' r = i)) ks))
   \<and> (js_get (Some parsed) ''mcpServers'' = Inr (Some (JObj kvs)) \<and> distinct (map fst kvs)
      \<and> (\<forall>k \<in> set (map fst kvs). \<not> is_array_index k)
      \<longrightarrow> claude_installedServers parsed = Inr (map fst kvs))
   \<and> subseq (map fst (entries (snd (listContinueServers e [])))) (map id' (servers e))
   \<and> (read_config e (continue_configPath e) = Inr parsed'
      \<and> continue_installedServers parsed' = Inr (JArr xs) \<and> well_shaped xs refs
      \<longrightarrow> entries (snd (listContinueServers e []))
          = map (\<lambda>r. (id' r, True))
              (filter (\<lambda>r. \<exists>ref \<in> set refs. prefix_match r ref) (servers e)))"
proof (intro conjI impI)
  assume a: "read_config e (claude_configPath e) = Inr parsed \<and> claude_installedServers parsed = Inr ks"
  have "registeredServers (servers e) ks = filter (\<lambda>i. \<exists>r \<in> set (servers e). id' r = i) ks"
    and "unknownServers (servers e) ks = filter (\<lambda>i. \<not> (\<exists>r \<in> set (servers e). id' r = i)) ks"
    by (simp_all add: registeredServers_def unknownServers_def is_registered_iff)
  with a show "entries (snd (listClaudeServers e []))
          = map (\<lambda>i. (i, True)) (filter (\<lambda>i. \<exists>r \<in> set (servers e). id' r = i) ks)
            @ map (\<lambda>i. (i, False)) (filter (\<lambda>i. \<not> (\<exists>r \<in> set (servers e). id' r = i)) ks)"
    using listClaudeServers_parsed [of e parsed ks "[]"]
    by (simp add: entries_claude_report)
next
  assume "js_get (Some parsed) ''mcpServers'' = Inr (Some (JObj kvs)) \<and> distinct (map fst kvs)
      \<and> (\<forall>k \<in> set (map fst kvs). \<not> is_array_index k)"
  then show "claude_installedServers parsed = Inr (map fst kvs)"
    by (simp add: claude_installedServers_object own_keys_named)
next
  from listContinueServers_filter [of e] obtain P where
    "entries (snd (listContinueServers e [])) = map (\<lambda>r. (id' r, True)) (filter P (servers e))"
    by blast
  then have "map fst (entries (snd (listContinueServers e []))) = map id' (filter P (servers e))"
    by (simp add: comp_def)
  then show "subseq (map fst (entries (snd (listContinueServers e [])))) (map id' (servers e))"
    by (simp add: subseq_map)
next
  assume "read_config e (continue_configPath e) = Inr parsed'
      \<and> continue_installedServers parsed' = Inr (JArr xs) \<and> well_shaped xs refs"
  then show "entries (snd (listContinueServers e []))
          = map (\<lambda>r. (id' r, True))
              (filter (\<lambda>r. \<exists>ref \<in> set refs. prefix_match r ref) (servers e))"
    using listContinueServers_well_shaped(1) [of e parsed' xs refs] by simp
qed

theorem listing_order_witness:
  "read_config
     (example_env [server ''fs'' ''npx'' [''-y'', ''fs-server'']]
        (Inr (Some (claude_config [''ghost'', ''fs'']))) (Inl ''ENOENT''))
     (claude_configPath
        (example_env [server ''fs'' ''npx'' [''-y'', ''fs-server'']]
           (Inr (Some (claude_config [''ghost'', ''fs'']))) (Inl ''ENOENT'')))
   = Inr (claude_config [''ghost'', ''fs''])
   \<and> js_get (Some (claude_config [''ghost'', ''fs''])) ''mcpServers''
     = Inr (Some (JObj [(''ghost'', JObj []), (''fs'', JObj [])]))
   \<and> distinct (map fst [(''ghost'', JObj []), (''fs'', JObj [])])
   \<and> \<not> is_array_index ''ghost'' \<and> \<not> is_array_index ''fs''
   \<and> claude_installedServers (claude_config [''ghost'', ''fs'']) = Inr [''ghost'', ''fs'']
   \<and> entries (snd (listClaudeServers
        (example_env [server ''fs'' ''npx'' [''-y'', ''fs-server'']]
           (Inr (Some (claude_config [''ghost'', ''fs'']))) (Inl ''ENOENT'')) []))
     = [(''fs'', True), (''ghost'', False)]
   \<and> read_config reordered_env (continue_configPath reordered_env)
     = Inr (continue_config [stdio_entry ''npx'' [''b-server''], stdio_entry ''npx'' [''a-server'']])
   \<and> well_shaped [stdio_entry ''npx'' [''b-server''], stdio_entry ''npx'' [''a-server'']]
        [(''npx'', [''b-server'']), (''npx'', [''a-server''])]
   \<and> map fst (entries (snd (listContinueServers reordered_env []))) = [''a'', ''b'']"
proof -
  let ?e = "example_env [server ''fs'' ''npx'' [''-y'', ''fs-server'']]
              (Inr (Some (claude_config [''ghost'', ''fs'']))) (Inl ''ENOENT'')"
  let ?kvs = "[(''ghost'', JObj []), (''fs'', JObj [])]"
  let ?xs = "[stdio_entry ''npx'' [''b-server''], stdio_entry ''npx'' [''a-server'']]"
  let ?refs = "[(''npx'', [''b-server'']), (''npx'', [''a-server''])]"
  have h1: "read_config ?e (claude_configPath ?e) = Inr (claude_config [''ghost'', ''fs''])"
    by (simp add: example_env_simps)
  have h2: "js_get (Some (claude_config [''ghost'', ''fs''])) ''mcpServers'' = Inr (Some (JObj ?kvs))"
    by (simp add: claude_config_def)
  have h3: "distinct (map fst ?kvs)" by simp
  have h4: "\<forall>k \<in> set (map fst ?kvs). \<not> is_array_index k"
    by (simp add: is_array_index_def is_digit_def)
  have h5: "claude_installedServers (claude_config [''ghost'', ''fs'']) = Inr [''ghost'', ''fs'']"
    using listing_order [of ?e "claude_config [''ghost'', ''fs'']" "[]" ?kvs "JNull" "[]" "[]"]
      h2 h3 h4
    by simp
  have h6: "read_config reordered_env (continue_configPath reordered_env) = Inr (continue_config ?xs)"
    by (simp add: reordered_env_def example_env_simps)
  have h7: "well_shaped ?xs ?refs"
    by (simp add: well_shaped_def carries_stdio_entry)
  show ?thesis
    using h1 h2 h3 h4 h5 h6 h7
      listing_order [of ?e "claude_config [''ghost'', ''fs'']" "[''ghost'', ''fs'']" ?kvs
        "JNull" "[]" "[]"]
      listing_order [of reordered_env "JNull" "[]" "[]" "continue_config ?xs" ?xs ?refs]
      continue_installedServers_config [of ?xs]
    by (simp add: example_env_simps reordered_env_def server_def prefix_match_def)
qed

end
